theory Spec2Isabelle
  imports Main
begin

section \<open>The wallet finder: a shallow embedding of \<open>wallet_finder/core.py\<close>\<close>

text \<open>
  The module has one class, \<open>WalletFinder\<close>, with two static methods:
  \<open>process\<close> (the evaluator of one candidate) and \<open>start\<close> (the run: generator,
  batching, worker pool, match recording and periodic progress saving).

  Conventions of the model.
  \<^item> Words and phrases are \<open>string\<close>s; a \<open>char\<close> stands for the Unicode code point of its
    code, so the strings of the model are the Python strings of code points below 256.
  \<^item> The derivation collaborator \<open>CryptoWallet(phrase).get_trx_address()\<close> is not part of
    this module. It is a parameter \<open>derive\<close> of the model: it returns an address (a string,
    so that \<open>str(address)\<close> is the address itself), raises \<open>ValueError\<close>, or raises some
    other \<open>Exception\<close> carrying a message.
  \<^item> \<open>itertools.permutations\<close>, \<open>itertools.islice\<close> and \<open>more_itertools.chunked\<close> are
    library functions; they are modelled on lists after their documented behaviour.
  \<^item> The files written by the run (the CSV of matches, the \<open>progress\<close> key of the
    configuration) and the calls made by the run (status callback, match callback,
    \<open>print\<close>, \<open>save_config\<close>, worker-pool submissions) are fields of an explicit state.
    Calls to \<open>logger.info\<close> are not modelled.
  \<^item> The worker pool is modelled by its result: \<open>starmap_async\<close> followed by \<open>wait\<close> and
    \<open>get\<close> returns the results of \<open>process\<close> in the order of the submitted candidates.
    The death of a worker process is outside the model.
  \<^item> \<open>int(start_from / chunk_size)\<close> is a float division truncated to an integer. The
    division of two Python integers gives the correctly rounded binary64 quotient (round
    half to even); the model computes that quotient, which is the integer quotient for
    \<open>0 \<le> start_from < 2^53\<close> and can differ from it from there on.
  \<^item> \<open>sys.maxsize\<close> is \<open>2^63 - 1\<close>, its value on 64-bit platforms.
\<close>

subsection \<open>Library functions\<close>

text \<open>
  \<open>" ".join(words)\<close>: the words separated by the separator.
\<close>

fun str_join :: "string \<Rightarrow> string list \<Rightarrow> string" where
  "str_join sep [] = []"
| "str_join sep [w] = w"
| "str_join sep (w # v # ws) = w @ sep @ str_join sep (v # ws)"

text \<open>
  \<open>str.lower()\<close> on the code points below 256: the letters \<open>A\<close> to \<open>Z\<close> (codes 65 to 90)
  and the upper-case letters of Latin-1 (codes 192 to 214 and 216 to 222) move up by 32;
  every other code point is left as it is.
\<close>

definition is_upper :: "char \<Rightarrow> bool" where
  "is_upper c =
     ((65 \<le> (of_char c :: nat) \<and> (of_char c :: nat) \<le> 90)
      \<or> (192 \<le> (of_char c :: nat) \<and> (of_char c :: nat) \<le> 214)
      \<or> (216 \<le> (of_char c :: nat) \<and> (of_char c :: nat) \<le> 222))"

definition lower_char :: "char \<Rightarrow> char" where
  "lower_char c = (if is_upper c then char_of ((of_char c :: nat) + 32) else c)"

definition lower :: "string \<Rightarrow> string" where
  "lower s = map lower_char s"

text \<open>
  \<open>str.strip()\<close> removes leading and trailing whitespace. The code points below 256 for
  which \<open>str.isspace\<close> holds are 9 to 13, 28 to 31, 32, 133 and 160.
\<close>

definition is_space :: "char \<Rightarrow> bool" where
  "is_space c =
     ((9 \<le> (of_char c :: nat) \<and> (of_char c :: nat) \<le> 13)
      \<or> (28 \<le> (of_char c :: nat) \<and> (of_char c :: nat) \<le> 32)
      \<or> (of_char c :: nat) = 133
      \<or> (of_char c :: nat) = 160)"

definition strip :: "string \<Rightarrow> string" where
  "strip s = rev (dropWhile is_space (rev (dropWhile is_space s)))"

text \<open>
  \<open>itertools.permutations(iterable, r)\<close>: the \<open>r\<close>-length permutations of the elements, in
  lexicographic order of the positions of the input; elements are unique by position, not
  by value; nothing is produced when \<open>r\<close> exceeds the number of elements.
  \<open>picks xs\<close> lists, position by position, an element of \<open>xs\<close> with the list of the others.
\<close>

fun picks :: "'a list \<Rightarrow> ('a \<times> 'a list) list" where
  "picks [] = []"
| "picks (x # xs) = (x, xs) # map (\<lambda>(y, ys). (y, x # ys)) (picks xs)"

fun permutations :: "'a list \<Rightarrow> nat \<Rightarrow> 'a list list" where
  "permutations xs 0 = [[]]"
| "permutations xs (Suc r) =
     concat (map (\<lambda>(x, rest). map ((#) x) (permutations rest r)) (picks xs))"

text \<open>
  The position of an element in the pool, and the lexicographic order of two candidates
  by the keys of their items; with the positions as keys this is the order in which
  \<open>itertools.permutations\<close> is documented to emit. \<open>perm_count n r\<close> is the falling
  factorial \<open>n (n - 1) \<dots> (n - r + 1)\<close>.
\<close>

fun index_of :: "'a list \<Rightarrow> 'a \<Rightarrow> nat" where
  "index_of [] a = 0"
| "index_of (x # xs) a = (if x = a then 0 else Suc (index_of xs a))"

fun lex_less :: "('a \<Rightarrow> nat) \<Rightarrow> 'a list \<Rightarrow> 'a list \<Rightarrow> bool" where
  "lex_less f [] [] = False"
| "lex_less f [] (y # ys) = True"
| "lex_less f (x # xs) [] = False"
| "lex_less f (x # xs) (y # ys) = (f x < f y \<or> (f x = f y \<and> lex_less f xs ys))"

fun perm_count :: "nat \<Rightarrow> nat \<Rightarrow> nat" where
  "perm_count n 0 = 1"
| "perm_count n (Suc r) = n * perm_count (n - 1) r"

text \<open>
  \<open>itertools.islice(iterable, start, None)\<close> consumes and drops the first \<open>start\<close> items and
  passes the others on. A \<open>start\<close> that is negative or greater than \<open>sys.maxsize\<close> raises
  \<open>ValueError\<close>.
\<close>

datatype py_error = ValueError

definition sys_maxsize :: int where
  "sys_maxsize = 2 ^ 63 - 1"

fun skip_items :: "'a list \<Rightarrow> nat \<Rightarrow> 'a list" where
  "skip_items xs 0 = xs"
| "skip_items [] (Suc n) = []"
| "skip_items (x # xs) (Suc n) = skip_items xs n"

definition islice :: "'a list \<Rightarrow> int \<Rightarrow> py_error + 'a list" where
  "islice xs start =
     (if start < 0 \<or> sys_maxsize < start then Inl ValueError
      else Inr (skip_items xs (nat start)))"

text \<open>
  \<open>more_itertools.chunked(iterable, n)\<close>: lists of \<open>n\<close> consecutive items; the last list
  may be shorter; it is never empty.
\<close>

function chunked :: "'a list \<Rightarrow> nat \<Rightarrow> 'a list list" where
  "chunked xs n = (if xs = [] \<or> n = 0 then [] else take n xs # chunked (drop n xs) n)"
  by pat_completeness auto
termination
  by (relation "measure (\<lambda>(xs, n). length xs)") auto

declare chunked.simps [simp del]

text \<open>
  \<open>int(a / b)\<close> for integers \<open>a \<ge> 0\<close> and \<open>b > 0\<close> with \<open>a / b < 2^54\<close> (which holds for
  \<open>a \<le> sys.maxsize\<close> and \<open>b \<ge> 1000\<close>). The quotient \<open>a / b\<close> is the binary64 number nearest
  to the exact quotient: a 53-bit mantissa \<open>m\<close>, the exact quotient scaled into
  \<open>[2^52, 2^53)\<close> and rounded half to even, times the power of two that undoes the scaling.
  \<open>round_half_even n d\<close> rounds \<open>n / d\<close> to an integer; \<open>fl_shift a b\<close> is the number of
  doublings that bring \<open>a / b\<close> to \<open>2^52\<close> or above; \<open>int\<close> then truncates.
\<close>

definition round_half_even :: "int \<Rightarrow> int \<Rightarrow> int" where
  "round_half_even n d =
     (if 2 * (n mod d) < d then n div d
      else if d < 2 * (n mod d) then n div d + 1
      else if even (n div d) then n div d else n div d + 1)"

function fl_shift :: "int \<Rightarrow> int \<Rightarrow> nat" where
  "fl_shift a b = (if 0 < a \<and> a < b * 2 ^ 52 then Suc (fl_shift (2 * a) b) else 0)"
  by pat_completeness auto
termination
  by (relation "measure (\<lambda>(a, b). nat (b * 2 ^ 52 - a))") auto

declare fl_shift.simps [simp del]

definition int_of_truediv :: "int \<Rightarrow> int \<Rightarrow> int" where
  "int_of_truediv a b =
     (if a = 0 then 0
      else if b * 2 ^ 53 \<le> a then 2 * round_half_even a (2 * b)
      else round_half_even (a * 2 ^ fl_shift a b) b div 2 ^ fl_shift a b)"

subsection \<open>The evaluator: \<open>WalletFinder.process\<close>\<close>

datatype derive_result = Address string | RaisesValueError | RaisesOther string

text \<open>
  The first statement of \<open>process\<close>: each word lower-cased, then stripped, and the words
  joined by one space.
\<close>

definition normalize :: "string list \<Rightarrow> string" where
  "normalize seeds = str_join '' '' (map (\<lambda>x. strip (lower x)) seeds)"

text \<open>
  The value returned by \<open>process\<close> is the pair \<open>(success, [seeds, address])\<close>, where the two
  entries of the list are \<open>None\<close> when there is no match. The second component of the model's
  result is what \<open>process\<close> printed.
\<close>

type_synonym process_result = "bool \<times> string option \<times> string option"

definition process ::
  "(string \<Rightarrow> derive_result) \<Rightarrow> string list \<Rightarrow> string set \<Rightarrow> process_result \<times> string list" where
  "process derive seeds target_address =
     (case derive (normalize seeds) of
        Address address \<Rightarrow>
          if address \<in> target_address
          then ((True, Some (normalize seeds), Some address), [])
          else ((False, None, None), [])
      | RaisesValueError \<Rightarrow> ((False, None, None), [])
      | RaisesOther e \<Rightarrow> ((False, None, None), [e]))"

subsection \<open>The run: \<open>WalletFinder.start\<close>\<close>

datatype status = StartingProcess | CheckingWallet int nat

text \<open>
  The state of a run.
  \<^item> \<open>csv_rows\<close>: the rows of \<open>found_wallets.csv\<close>;
  \<^item> \<open>progress\<close>: the value stored under the key \<open>progress\<close> of the configuration;
  \<^item> \<open>saves\<close>: the values written by the calls of \<open>save_config\<close>, in order;
  \<^item> \<open>statuses\<close>: the calls of \<open>update_status_func\<close>;
  \<^item> \<open>found\<close>: the calls of \<open>update_list_func\<close>;
  \<^item> \<open>printed\<close>: what the workers printed, in the order of the candidates;
  \<^item> \<open>evaluated\<close>: the candidates submitted to the worker pool, in order.
\<close>

record run_state =
  csv_rows :: "string list list"
  progress :: int
  saves :: "int list"
  statuses :: "status list"
  found :: "(string option \<times> string option) list"
  printed :: "string list"
  evaluated :: "string list list"

datatype outcome = Completed | Raised py_error

definition csv_header :: "string list" where
  "csv_header = [''Seed Phrase'', ''TRX Address'']"

text \<open>\<open>csv.writer\<close> writes \<open>None\<close> as the empty string.\<close>

definition csv_field :: "string option \<Rightarrow> string" where
  "csv_field v = (case v of None \<Rightarrow> [] | Some s \<Rightarrow> s)"

text \<open>
  The body of the inner loop over the results of a batch: a result without success is
  skipped; a match is appended to the CSV and passed to the match callback.
\<close>

fun record_result :: "run_state \<Rightarrow> process_result \<Rightarrow> run_state" where
  "record_result st (success, seeds, address) =
     (if \<not> success then st
      else st\<lparr>csv_rows := csv_rows st @ [[csv_field seeds, csv_field address]],
              found := found st @ [(seeds, address)]\<rparr>)"

text \<open>
  The body of the loop over the batches, for the batch \<open>chunk\<close> numbered \<open>index\<close>.
\<close>

definition loop_body ::
  "(string \<Rightarrow> derive_result) \<Rightarrow> string set \<Rightarrow> nat \<Rightarrow> int \<Rightarrow> string list list \<Rightarrow> run_state \<Rightarrow> run_state" where
  "loop_body derive target_address num_processes index chunk st =
     (let chunk_size = num_processes * 1000;
          process_count = (index + 1) * int chunk_size;
          st1 = st\<lparr>statuses := statuses st @ [CheckingWallet process_count num_processes]\<rparr>;
          process_results = map (\<lambda>seeds. process derive seeds target_address) chunk;
          st2 = st1\<lparr>evaluated := evaluated st1 @ chunk,
                    printed := printed st1 @ concat (map snd process_results)\<rparr>;
          st3 = foldl record_result st2 (map fst process_results)
      in if index mod 10 = 0
         then st3\<lparr>progress := (index + 1) * int chunk_size,
                  saves := saves st3 @ [(index + 1) * int chunk_size]\<rparr>
         else st3)"

text \<open>
  The loop \<open>for index, chunk in enumerate(chunks, start=index)\<close>.
\<close>

fun for_loop ::
  "(string \<Rightarrow> derive_result) \<Rightarrow> string set \<Rightarrow> nat \<Rightarrow> int \<Rightarrow> string list list list \<Rightarrow> run_state \<Rightarrow> run_state" where
  "for_loop derive target_address num_processes index [] st = st"
| "for_loop derive target_address num_processes index (chunk # chunks) st =
     for_loop derive target_address num_processes (index + 1) chunks
       (loop_body derive target_address num_processes index chunk st)"

text \<open>
  The statements of \<open>start\<close> before the worker pool is opened: the offset of the run, the
  first status message and, for a run that does not resume, the CSV truncated to its header.
\<close>

definition start_from_of :: "bool \<Rightarrow> run_state \<Rightarrow> int" where
  "start_from_of resume st = (if resume then progress st else 0)"

definition start_setup :: "bool \<Rightarrow> run_state \<Rightarrow> run_state" where
  "start_setup resume st =
     (let st1 = st\<lparr>statuses := statuses st @ [StartingProcess]\<rparr>
      in if \<not> resume then st1\<lparr>csv_rows := [csv_header]\<rparr> else st1)"

text \<open>
  \<open>start\<close>. The number of processes is \<open>multiprocessing.cpu_count()\<close>, a parameter of the
  model; \<open>multiprocessing.Pool\<close> raises \<open>ValueError\<close> when it is not positive.
\<close>

definition start ::
  "(string \<Rightarrow> derive_result) \<Rightarrow> string list \<Rightarrow> string set \<Rightarrow> nat \<Rightarrow> bool \<Rightarrow> run_state
     \<Rightarrow> run_state \<times> outcome" where
  "start derive wordlist target_address num_processes resume st =
     (let combinations = permutations wordlist 12;
          start_from = start_from_of resume st;
          st1 = start_setup resume st
      in if num_processes = 0 then (st1, Raised ValueError)
         else
           let chunk_size = num_processes * 1000
           in case islice combinations start_from of
                Inl e \<Rightarrow> (st1, Raised e)
              | Inr tail \<Rightarrow>
                  (for_loop derive target_address num_processes
                     (int_of_truediv start_from (int chunk_size) - 1)
                     (chunked tail chunk_size) st1,
                   Completed))"

subsection \<open>Observing a run\<close>

text \<open>
  A run that starts with empty traces, from the stored CSV rows and the stored progress.
\<close>

definition initial_state :: "string list list \<Rightarrow> int \<Rightarrow> run_state" where
  "initial_state rows p =
     \<lparr>csv_rows = rows, progress = p, saves = [], statuses = [], found = [], printed = [],
      evaluated = []\<rparr>"

text \<open>
  The offsets that \<open>islice\<close> accepts; the batches of a run that reaches its loop, and the
  index given to the first of them.
\<close>

definition accepted_offset :: "int \<Rightarrow> bool" where
  "accepted_offset s \<longleftrightarrow> 0 \<le> s \<and> s \<le> sys_maxsize"

definition batches :: "string list \<Rightarrow> nat \<Rightarrow> bool \<Rightarrow> run_state \<Rightarrow> string list list list" where
  "batches wordlist num_processes resume st =
     chunked (skip_items (permutations wordlist 12) (nat (start_from_of resume st)))
       (num_processes * 1000)"

definition first_index :: "nat \<Rightarrow> bool \<Rightarrow> run_state \<Rightarrow> int" where
  "first_index num_processes resume st =
     int_of_truediv (start_from_of resume st) (int (num_processes * 1000)) - 1"

text \<open>
  The values that \<open>m\<close> consecutive batches, the first of them numbered \<open>index\<close>, write to
  the stored progress: one value for each batch whose number is a multiple of 10.
\<close>

definition written :: "nat \<Rightarrow> int \<Rightarrow> nat \<Rightarrow> int list" where
  "written num_processes index m =
     map (\<lambda>i. (i + 1) * int (num_processes * 1000))
       (filter (\<lambda>i. i mod 10 = 0) [index..index + int m - 1])"

text \<open>
  \<open>run_prefix j\<close> is \<open>start\<close> observed when \<open>j\<close> batches have completed (or at its end, when
  the run has fewer batches): the same statements, with the loop cut after \<open>j\<close> iterations.
\<close>

definition run_prefix ::
  "nat \<Rightarrow> (string \<Rightarrow> derive_result) \<Rightarrow> string list \<Rightarrow> string set \<Rightarrow> nat \<Rightarrow> bool \<Rightarrow> run_state
     \<Rightarrow> run_state \<times> outcome" where
  "run_prefix j derive wordlist target_address num_processes resume st =
     (let combinations = permutations wordlist 12;
          start_from = start_from_of resume st;
          st1 = start_setup resume st
      in if num_processes = 0 then (st1, Raised ValueError)
         else
           let chunk_size = num_processes * 1000
           in case islice combinations start_from of
                Inl e \<Rightarrow> (st1, Raised e)
              | Inr tail \<Rightarrow>
                  (for_loop derive target_address num_processes
                     (int_of_truediv start_from (int chunk_size) - 1)
                     (take j (chunked tail chunk_size)) st1,
                   Completed))"

text \<open>
  The row that a candidate adds to the CSV, if it adds one: the normalized phrase and the
  derived address, when the derivation succeeds and the address is a target.
\<close>

definition match_record ::
  "(string \<Rightarrow> derive_result) \<Rightarrow> string set \<Rightarrow> string list \<Rightarrow> string list option" where
  "match_record derive target_address seeds =
     (case derive (normalize seeds) of
        Address address \<Rightarrow>
          if address \<in> target_address then Some [normalize seeds, address] else None
      | RaisesValueError \<Rightarrow> None
      | RaisesOther e \<Rightarrow> None)"

subsection \<open>Inputs of the scenarios\<close>

definition pool_abcd :: "string list" where
  "pool_abcd = [''a'', ''b'', ''c'', ''d'']"

definition pool_abcde :: "string list" where
  "pool_abcde = [''a'', ''b'', ''c'', ''d'', ''e'']"

definition words12 :: "string list" where
  "words12 = [''a'', ''b'', ''c'', ''d'', ''e'', ''f'', ''g'', ''h'', ''i'', ''j'', ''k'', ''l'']"

definition seeds_abc :: "string list" where
  "seeds_abc = [''a'', ''b'', ''c'']"

definition no_targets :: "string set" where
  "no_targets = {}"

definition target_X :: "string set" where
  "target_X = {''X''}"

definition target_Y :: "string set" where
  "target_Y = {''Y''}"

text \<open>Derivations: one that rejects every phrase, one that fails unexpectedly on every
  phrase, one that gives every phrase the address \<open>Y\<close>, and one that gives the phrase
  \<open>a b c\<close> the address \<open>X\<close> and rejects the others.\<close>

definition derive_invalid :: "string \<Rightarrow> derive_result" where
  "derive_invalid phrase = RaisesValueError"

definition derive_fault :: "string \<Rightarrow> derive_result" where
  "derive_fault phrase = RaisesOther ''fault''"

definition derive_Y :: "string \<Rightarrow> derive_result" where
  "derive_Y phrase = Address ''Y''"

definition derive_abc_X :: "string \<Rightarrow> derive_result" where
  "derive_abc_X phrase = (if phrase = ''a b c'' then Address ''X'' else RaisesValueError)"

section \<open>Lemmas\<close>

subsection \<open>The generator\<close>

lemma length_picks: "length (picks xs) = length xs"
  by (induction xs) auto

lemma map_fst_picks: "map fst (picks xs) = xs"
  by (induction xs) (auto simp: case_prod_beta comp_def)

lemma picks_length_rest: "(x, rest) \<in> set (picks xs) \<Longrightarrow> Suc (length rest) = length xs"
  by (induction xs arbitrary: x rest) auto

lemma picks_set: "(x, rest) \<in> set (picks xs) \<Longrightarrow> x \<in> set xs \<and> set rest \<subseteq> set xs"
proof (induction xs arbitrary: x rest)
  case Nil
  then show ?case by simp
next
  case (Cons a xs)
  show ?case
  proof (cases "(x, rest) = (a, xs)")
    case True
    then show ?thesis by auto
  next
    case False
    with Cons.prems obtain ys where ys: "(x, ys) \<in> set (picks xs)" and r: "rest = a # ys"
      by auto
    from Cons.IH[OF ys] r show ?thesis by auto
  qed
qed

lemma picks_distinct:
  "(x, rest) \<in> set (picks xs) \<Longrightarrow> distinct xs \<Longrightarrow> x \<notin> set rest \<and> distinct rest"
proof (induction xs arbitrary: x rest)
  case Nil
  then show ?case by simp
next
  case (Cons a xs)
  show ?case
  proof (cases "(x, rest) = (a, xs)")
    case True
    with Cons.prems show ?thesis by auto
  next
    case False
    with Cons.prems obtain ys where ys: "(x, ys) \<in> set (picks xs)" and r: "rest = a # ys"
      by auto
    from Cons.prems have d: "distinct xs" "a \<notin> set xs" by auto
    from Cons.IH[OF ys d(1)] picks_set[OF ys] r d show ?thesis by auto
  qed
qed

lemma picks_sorted_wrt:
  "(x, rest) \<in> set (picks xs) \<Longrightarrow> sorted_wrt R xs \<Longrightarrow> sorted_wrt R rest"
proof (induction xs arbitrary: x rest)
  case Nil
  then show ?case by simp
next
  case (Cons a xs)
  show ?case
  proof (cases "(x, rest) = (a, xs)")
    case True
    with Cons.prems show ?thesis by auto
  next
    case False
    with Cons.prems obtain ys where ys: "(x, ys) \<in> set (picks xs)" and r: "rest = a # ys"
      by auto
    from Cons.prems have s: "sorted_wrt R xs" "\<forall>y\<in>set xs. R a y" by auto
    from Cons.IH[OF ys s(1)] picks_set[OF ys] r s show ?thesis by auto
  qed
qed

lemma length_permutations: "length (permutations xs r) = perm_count (length xs) r"
proof (induction r arbitrary: xs)
  case 0
  show ?case by simp
next
  case (Suc r)
  have eq: "map (\<lambda>p. length (case p of (x, rest) \<Rightarrow> map ((#) x) (permutations rest r))) (picks xs)
        = map (\<lambda>p. perm_count (length xs - 1) r) (picks xs)"
  proof (rule map_cong[OF refl])
    fix p assume p: "p \<in> set (picks xs)"
    obtain x rest where xr: "p = (x, rest)" by (cases p)
    with p have "Suc (length rest) = length xs" by (simp add: picks_length_rest)
    then have "length rest = length xs - 1" by simp
    with xr Suc.IH[of rest] show "length (case p of (x, rest) \<Rightarrow> map ((#) x) (permutations rest r)) = perm_count (length xs - 1) r"
      by simp
  qed
  have "length (permutations xs (Suc r))
        = sum_list (map (\<lambda>p. length (case p of (x, rest) \<Rightarrow> map ((#) x) (permutations rest r))) (picks xs))"
    by (simp add: length_concat comp_def)
  also have "\<dots> = sum_list (map (\<lambda>p. perm_count (length xs - 1) r) (picks xs))"
    by (simp only: eq)
  also have "\<dots> = perm_count (length xs) (Suc r)"
    by (simp add: sum_list_triv length_picks)
  finally show ?case .
qed

lemma perm_count_fact: "r \<le> n \<Longrightarrow> perm_count n r * fact (n - r) = fact n"
proof (induction r arbitrary: n)
  case 0
  show ?case by simp
next
  case (Suc r)
  then obtain m where m: "n = Suc m" by (cases n) auto
  with Suc.prems have "r \<le> m" by simp
  from Suc.IH[OF this] have ih: "perm_count m r * fact (m - r) = fact m" .
  have "perm_count (Suc m) (Suc r) * fact (Suc m - Suc r) = Suc m * (perm_count m r * fact (m - r))"
    by (simp only: perm_count.simps diff_Suc_Suc diff_Suc_1 mult.assoc)
  also have "\<dots> = fact (Suc m)"
    by (simp only: ih fact_Suc of_nat_id)
  finally show ?case using m by simp
qed

lemma perm_count_zero: "n < r \<Longrightarrow> perm_count n r = 0"
proof (induction r arbitrary: n)
  case 0
  then show ?case by simp
next
  case (Suc r)
  show ?case
  proof (cases n)
    case 0
    then show ?thesis by simp
  next
    case (Suc m)
    with Suc.prems have "m < r" by simp
    from Suc.IH[OF this] Suc show ?thesis by simp
  qed
qed

lemma permutations_too_long: "length xs < r \<Longrightarrow> permutations xs r = []"
  using length_permutations[of xs r] perm_count_zero[of "length xs" r] by simp

lemma permutations_elem:
  "p \<in> set (permutations xs r) \<Longrightarrow> length p = r \<and> set p \<subseteq> set xs \<and> (distinct xs \<longrightarrow> distinct p)"
proof (induction r arbitrary: xs p)
  case 0
  then show ?case by simp
next
  case (Suc r)
  from Suc.prems obtain x rest q where
    xr: "(x, rest) \<in> set (picks xs)" and q: "q \<in> set (permutations rest r)" and p: "p = x # q"
    by auto
  from Suc.IH[OF q] have ih: "length q = r" "set q \<subseteq> set rest" "distinct rest \<longrightarrow> distinct q"
    by auto
  from picks_set[OF xr] have s: "x \<in> set xs" "set rest \<subseteq> set xs" by auto
  show ?case
  proof (intro conjI impI)
    show "length p = Suc r" using p ih by simp
    show "set p \<subseteq> set xs" using p ih s by auto
    assume "distinct xs"
    with picks_distinct[OF xr] have "x \<notin> set rest" "distinct rest" by auto
    with ih p show "distinct p" by auto
  qed
qed

lemma sorted_wrt_concat_map:
  assumes "sorted_wrt Q ps"
    and "\<And>p. p \<in> set ps \<Longrightarrow> sorted_wrt P (g p)"
    and "\<And>p q a b. Q p q \<Longrightarrow> a \<in> set (g p) \<Longrightarrow> b \<in> set (g q) \<Longrightarrow> P a b"
  shows "sorted_wrt P (concat (map g ps))"
  using assms
proof (induction ps)
  case Nil
  show ?case by simp
next
  case (Cons p ps)
  then show ?case
    by (auto simp: sorted_wrt_append)
qed

lemma sorted_wrt_lex_permutations:
  "sorted_wrt (\<lambda>a b. f a < f b) xs \<Longrightarrow> sorted_wrt (lex_less f) (permutations xs r)"
proof (induction r arbitrary: xs)
  case 0
  show ?case by simp
next
  case (Suc r)
  let ?g = "\<lambda>(x, rest). map ((#) x) (permutations rest r)"
  let ?Q = "\<lambda>p q. f (fst p) < f (fst q)"
  have "sorted_wrt (\<lambda>a b. f a < f b) (map fst (picks xs))"
    using Suc.prems by (simp add: map_fst_picks)
  then have Q: "sorted_wrt ?Q (picks xs)"
    by (simp add: sorted_wrt_map)
  have "sorted_wrt (lex_less f) (concat (map ?g (picks xs)))"
  proof (rule sorted_wrt_concat_map[OF Q])
    fix p assume p: "p \<in> set (picks xs)"
    obtain x rest where xr: "p = (x, rest)" by (cases p)
    from p xr Suc.prems have "sorted_wrt (\<lambda>a b. f a < f b) rest"
      by (auto dest: picks_sorted_wrt)
    from Suc.IH[OF this] xr show "sorted_wrt (lex_less f) (?g p)"
      by (simp add: sorted_wrt_map)
  next
    fix p q a b
    assume "?Q p q" "a \<in> set (?g p)" "b \<in> set (?g q)"
    then show "lex_less f a b"
      by (cases p; cases q) auto
  qed
  then show ?case by simp
qed

lemma lex_less_irrefl: "\<not> lex_less f p p"
  by (induction p) auto

lemma sorted_wrt_irrefl_distinct:
  "sorted_wrt P xs \<Longrightarrow> (\<And>x. \<not> P x x) \<Longrightarrow> distinct xs"
  by (induction xs) auto

lemma index_of_nth: "distinct xs \<Longrightarrow> i < length xs \<Longrightarrow> index_of xs (xs ! i) = i"
proof (induction xs arbitrary: i)
  case Nil
  then show ?case by simp
next
  case (Cons a xs)
  then show ?case
    by (cases i) auto
qed

lemma sorted_wrt_index_of:
  "distinct xs \<Longrightarrow> sorted_wrt (\<lambda>a b. index_of xs a < index_of xs b) xs"
  by (simp add: sorted_wrt_iff_nth_less index_of_nth)

subsection \<open>Skipping and batching\<close>

lemma skip_items_drop: "skip_items xs n = drop n xs"
  by (induction xs n rule: skip_items.induct) auto

lemma chunked_Nil: "chunked [] n = []"
  by (simp add: chunked.simps)

lemma chunked_step: "xs \<noteq> [] \<Longrightarrow> 0 < n \<Longrightarrow> chunked xs n = take n xs # chunked (drop n xs) n"
  by (subst chunked.simps) simp

lemma concat_chunked: "0 < n \<Longrightarrow> concat (chunked xs n) = xs"
proof (induction xs n rule: chunked.induct)
  case (1 xs n)
  show ?case
  proof (cases "xs = []")
    case True
    then show ?thesis by (simp add: chunked_Nil)
  next
    case False
    with 1 show ?thesis by (simp add: chunked_step)
  qed
qed

lemma concat_take_chunked: "0 < n \<Longrightarrow> concat (take j (chunked xs n)) = take (j * n) xs"
proof (induction xs n arbitrary: j rule: chunked.induct)
  case (1 xs n)
  show ?case
  proof (cases "xs = []")
    case True
    then show ?thesis by (simp add: chunked_Nil)
  next
    case False
    show ?thesis
    proof (cases j)
      case 0
      then show ?thesis by simp
    next
      case (Suc k)
      from 1 False have "concat (take k (chunked (drop n xs) n)) = take (k * n) (drop n xs)"
        by simp
      with False 1(2) Suc show ?thesis
        by (simp add: chunked_step take_add[symmetric] add.commute)
    qed
  qed
qed

lemma chunked_lengths:
  "0 < n \<Longrightarrow> i < length (chunked xs n) \<Longrightarrow> i * n < length xs"
proof (induction xs n arbitrary: i rule: chunked.induct)
  case (1 xs n)
  show ?case
  proof (cases "xs = []")
    case True
    with 1(3) show ?thesis by (simp add: chunked_Nil)
  next
    case False
    show ?thesis
    proof (cases i)
      case 0
      with False show ?thesis by simp
    next
      case (Suc k)
      with 1(3) False 1(2) have "k < length (chunked (drop n xs) n)"
        by (simp add: chunked_step)
      with 1(1)[OF _ 1(2), of k] False 1(2) have "k * n < length xs - n"
        by simp
      with Suc show ?thesis by simp
    qed
  qed
qed

subsection \<open>The float quotient\<close>

lemma fl_shift_reaches: "0 < a \<Longrightarrow> b * 2 ^ 52 \<le> a * 2 ^ fl_shift a b"
proof (induction a b rule: fl_shift.induct)
  case (1 a b)
  show ?case
  proof (cases "a < b * 2 ^ 52")
    case True
    with 1 have "b * 2 ^ 52 \<le> 2 * a * 2 ^ fl_shift (2 * a) b" by simp
    moreover from True 1(2) have "fl_shift a b = Suc (fl_shift (2 * a) b)"
      by (subst fl_shift.simps) simp
    ultimately show ?thesis by (simp add: mult.assoc mult.left_commute)
  next
    case False
    then have "fl_shift a b = 0" by (subst fl_shift.simps) simp
    with False show ?thesis by simp
  qed
qed

lemma round_half_even_bounds:
  "n div d \<le> round_half_even n d \<and> round_half_even n d \<le> n div d + 1"
  by (simp add: round_half_even_def)

lemma round_half_even_up:
  "round_half_even n d = n div d + 1 \<Longrightarrow> d \<le> 2 * (n mod d)"
  by (simp add: round_half_even_def split: if_splits)

lemma int_of_truediv_example1: "int_of_truediv 35184372088831999 1000 = 35184372088832"
  by (simp add: int_of_truediv_def fl_shift.simps round_half_even_def)

lemma int_of_truediv_example2: "int_of_truediv 5296855682339020799 1000 = 5296855682339021"
  by (simp add: int_of_truediv_def fl_shift.simps round_half_even_def)


lemma int_of_truediv_exact:
  assumes a0: "0 \<le> a" and a53: "a < 2 ^ 53" and b: "0 < b"
  shows "int_of_truediv a b = a div b"
proof (cases "a = 0")
  case True
  then show ?thesis by (simp add: int_of_truediv_def)
next
  case False
  with a0 have apos: "0 < a" by simp
  define k where "k = fl_shift a b"
  define p where "p = (2::int) ^ k"
  define n where "n = a * p"
  define m where "m = round_half_even n b"
  define q where "q = a div b"
  define ra where "ra = a mod b"
  define d where "d = n div b"
  define r where "r = n mod b"
  have ppos: "0 < p" by (simp add: p_def)
  from b have "1 \<le> b" by simp
  then have "(2::int) ^ 53 \<le> b * 2 ^ 53" by simp
  with a53 have nb: "\<not> b * 2 ^ 53 \<le> a" by linarith
  have val: "int_of_truediv a b = m div p"
    using False nb by (simp add: int_of_truediv_def m_def n_def p_def k_def)
  have reach: "b * 2 ^ 52 \<le> n"
    unfolding n_def p_def k_def using apos by (rule fl_shift_reaches)
  have amod: "a = b * q + ra" by (simp add: q_def ra_def)
  have ra: "0 \<le> ra" "ra < b" using b by (simp_all add: ra_def)
  have nmod: "n = b * d + r" by (simp add: d_def r_def)
  have r: "0 \<le> r" "r < b" using b by (simp_all add: r_def)
  have bounds: "d \<le> m" "m \<le> d + 1"
    using round_half_even_bounds[of n b] by (simp_all add: m_def d_def)
  \<comment> \<open>the lower bound\<close>
  have bqp: "b * (q * p) \<le> n"
  proof -
    have "b * q \<le> a" using amod ra(1) by linarith
    then have "b * q * p \<le> a * p" using ppos by (intro mult_right_mono) simp_all
    then show ?thesis by (simp add: n_def mult.assoc)
  qed
  have e1: "b * (d + 1) = b * d + b" by (simp add: distrib_left)
  have "b * (q * p) < b * (d + 1)"
    unfolding e1 using bqp nmod r(2) by linarith
  then have "q * p < d + 1" using b by (simp only: mult_less_cancel_left_pos)
  with bounds(1) have lo: "q * p \<le> m" by linarith
  \<comment> \<open>the upper bound\<close>
  define Q where "Q = (q + 1) * p"
  define X where "X = b * Q"
  have e2: "(q + 1) * b = b * q + b" by (simp add: algebra_simps)
  have D: "1 \<le> (q + 1) * b - a" unfolding e2 using amod ra(2) by linarith
  have nQ: "X - n = ((q + 1) * b - a) * p"
    by (simp add: X_def Q_def n_def algebra_simps)
  have gap: "p \<le> X - n"
  proof -
    have "1 * p \<le> ((q + 1) * b - a) * p" using D ppos by (intro mult_right_mono) simp_all
    then show ?thesis by (simp add: nQ)
  qed
  have "b * d < b * Q" using gap ppos nmod r(1) unfolding X_def by linarith
  then have dlt: "d < Q" using b by (simp only: mult_less_cancel_left_pos)
  have hi: "m < Q"
  proof (rule ccontr)
    assume "\<not> m < Q"
    with bounds(2) dlt have m1: "m = d + 1" and d1: "d = Q - 1"
      by linarith+
    from m1 have br: "b \<le> 2 * r"
      unfolding m_def d_def r_def by (rule round_half_even_up)
    define Y where "Y = b * d"
    have e3: "Y = X - b"
      unfolding Y_def d1 X_def by (simp add: algebra_simps)
    have e4: "n = Y + r" using nmod by (simp add: Y_def)
    from br e3 e4 have "2 * (X - n) \<le> b" by simp
    with gap have pb: "2 * p \<le> b" by arith
    have "b * 2 ^ 53 = 2 * (b * 2 ^ 52)" by simp
    also have "\<dots> \<le> 2 * n" using reach by simp
    also have "\<dots> = a * (2 * p)" by (simp add: n_def)
    also have "\<dots> \<le> a * b" using pb a0 by (intro mult_left_mono) simp_all
    finally have "b * 2 ^ 53 \<le> b * a" by (simp add: mult.commute)
    then have "2 ^ 53 \<le> a" using b by (simp only: mult_le_cancel_left_pos)
    with a53 show False by simp
  qed
  have "m div p = q"
  proof (rule int_div_pos_eq)
    show "m = p * q + (m - p * q)" by simp
    show "0 \<le> m - p * q" using lo by (simp add: mult.commute)
    show "m - p * q < p" using hi by (simp add: Q_def algebra_simps)
  qed
  with val show ?thesis by (simp add: q_def)
qed

subsection \<open>The loop over the batches\<close>

lemma foldl_record_result_frame:
  "progress (foldl record_result st rs) = progress st"
  "saves (foldl record_result st rs) = saves st"
  "statuses (foldl record_result st rs) = statuses st"
  "printed (foldl record_result st rs) = printed st"
  "evaluated (foldl record_result st rs) = evaluated st"
  by (induction rs arbitrary: st; auto)+

lemma record_result_process:
  "record_result st (fst (process derive seeds target)) =
     (case match_record derive target seeds of
        None \<Rightarrow> st
      | Some row \<Rightarrow> st\<lparr>csv_rows := csv_rows st @ [row],
                         found := found st @ [(Some (row ! 0), Some (row ! 1))]\<rparr>)"
  by (simp add: process_def match_record_def csv_field_def split: derive_result.splits)

lemma map_filter_append:
  "List.map_filter f (xs @ ys) = List.map_filter f xs @ List.map_filter f ys"
  by (simp add: List.map_filter_def)

lemma foldl_record_result_csv:
  "csv_rows (foldl record_result st (map (\<lambda>seeds. fst (process derive seeds target)) chunk))
     = csv_rows st @ List.map_filter (match_record derive target) chunk"
proof (induction chunk arbitrary: st)
  case Nil
  show ?case by simp
next
  case (Cons seeds chunk)
  show ?case
    by (cases "match_record derive target seeds")
      (simp_all add: Cons.IH record_result_process)
qed

lemma loop_body_evaluated:
  "evaluated (loop_body derive target P index chunk st) = evaluated st @ chunk"
  by (simp add: loop_body_def Let_def foldl_record_result_frame)

lemma loop_body_csv:
  "csv_rows (loop_body derive target P index chunk st)
     = csv_rows st @ List.map_filter (match_record derive target) chunk"
  using foldl_record_result_csv[of "st\<lparr>statuses := statuses st @ [CheckingWallet ((index + 1) * int (P * 1000)) P],
      evaluated := evaluated st @ chunk,
      printed := printed st @ concat (map snd (map (\<lambda>seeds. process derive seeds target) chunk))\<rparr>" derive target chunk]
  by (simp add: loop_body_def Let_def comp_def)

lemma loop_body_saves:
  "saves (loop_body derive target P index chunk st)
     = saves st @ (if index mod 10 = 0 then [(index + 1) * int (P * 1000)] else [])"
  by (simp add: loop_body_def Let_def foldl_record_result_frame)

lemma loop_body_progress:
  "progress (loop_body derive target P index chunk st)
     = (if index mod 10 = 0 then (index + 1) * int (P * 1000) else progress st)"
  by (simp add: loop_body_def Let_def foldl_record_result_frame)

lemma loop_body_printed:
  "printed (loop_body derive target P index chunk st)
     = printed st @ concat (map (\<lambda>seeds. snd (process derive seeds target)) chunk)"
  by (simp add: loop_body_def Let_def foldl_record_result_frame comp_def)

lemma for_loop_evaluated:
  "evaluated (for_loop derive target P index chunks st) = evaluated st @ concat chunks"
  by (induction chunks arbitrary: index st) (simp_all add: loop_body_evaluated)

lemma for_loop_csv:
  "csv_rows (for_loop derive target P index chunks st)
     = csv_rows st @ List.map_filter (match_record derive target) (concat chunks)"
  by (induction chunks arbitrary: index st) (simp_all add: loop_body_csv map_filter_append)

lemma for_loop_printed:
  "printed (for_loop derive target P index chunks st)
     = printed st @ concat (map (\<lambda>seeds. snd (process derive seeds target)) (concat chunks))"
  by (induction chunks arbitrary: index st) (simp_all add: loop_body_printed)

lemma written_0: "written P index 0 = []"
  by (simp add: written_def)

lemma written_Suc:
  "written P index (Suc m)
     = (if index mod 10 = 0 then [(index + 1) * int (P * 1000)] else []) @ written P (index + 1) m"
proof -
  have "[index..index + int (Suc m) - 1] = index # [index + 1..(index + 1) + int m - 1]"
    by (subst upto_rec1) (simp_all add: add.commute add.left_commute)
  then show ?thesis by (simp add: written_def)
qed

lemma for_loop_saves:
  "saves (for_loop derive target P index chunks st) = saves st @ written P index (length chunks)"
  by (induction chunks arbitrary: index st) (simp_all add: loop_body_saves written_0 written_Suc)

lemma for_loop_progress:
  "progress (for_loop derive target P index chunks st)
     = (if written P index (length chunks) = [] then progress st
        else last (written P index (length chunks)))"
proof (induction chunks arbitrary: index st)
  case Nil
  show ?case by (simp add: written_0)
next
  case (Cons chunk chunks)
  show ?case
    by (simp add: Cons.IH loop_body_progress written_Suc)
qed

subsection \<open>The run\<close>

lemma start_setup_frame:
  "progress (start_setup resume st) = progress st"
  "saves (start_setup resume st) = saves st"
  "evaluated (start_setup resume st) = evaluated st"
  "printed (start_setup resume st) = printed st"
  "found (start_setup resume st) = found st"
  "statuses (start_setup resume st) = statuses st @ [StartingProcess]"
  "csv_rows (start_setup resume st) = (if resume then csv_rows st else [csv_header])"
  by (simp_all add: start_setup_def Let_def)

lemma run_prefix_loop:
  "0 < P \<Longrightarrow> accepted_offset (start_from_of resume st) \<Longrightarrow>
   run_prefix j derive wordlist target P resume st =
     (for_loop derive target P (first_index P resume st) (take j (batches wordlist P resume st))
        (start_setup resume st), Completed)"
  by (simp add: run_prefix_def Let_def islice_def batches_def first_index_def
      accepted_offset_def)

lemma start_loop:
  "0 < P \<Longrightarrow> accepted_offset (start_from_of resume st) \<Longrightarrow>
   start derive wordlist target P resume st =
     (for_loop derive target P (first_index P resume st) (batches wordlist P resume st)
        (start_setup resume st), Completed)"
  by (simp add: start_def Let_def islice_def batches_def first_index_def
      accepted_offset_def)

lemma run_prefix_all:
  "0 < P \<Longrightarrow> accepted_offset (start_from_of resume st) \<Longrightarrow> length (batches wordlist P resume st) \<le> j \<Longrightarrow>
   run_prefix j derive wordlist target P resume st = start derive wordlist target P resume st"
  by (simp add: run_prefix_loop start_loop)

lemma concat_batches:
  "0 < P \<Longrightarrow> concat (batches wordlist P resume st)
     = drop (nat (start_from_of resume st)) (permutations wordlist 12)"
  by (simp add: batches_def concat_chunked skip_items_drop)

lemma start_evaluated:
  "0 < P \<Longrightarrow> accepted_offset (start_from_of resume st) \<Longrightarrow>
   evaluated (fst (start derive wordlist target P resume st))
     = evaluated st @ drop (nat (start_from_of resume st)) (permutations wordlist 12)"
  by (simp add: start_loop for_loop_evaluated concat_batches start_setup_frame)

lemma accepted_offset_0: "accepted_offset 0"
  by (simp add: accepted_offset_def sys_maxsize_def)

lemma accepted_fresh: "accepted_offset (start_from_of False st)"
  by (simp add: start_from_of_def accepted_offset_0)

lemma start_from_initial:
  "start_from_of resume (initial_state rows p) = (if resume then p else 0)"
  by (simp add: start_from_of_def initial_state_def)

lemma batches_short: "length wordlist < 12 \<Longrightarrow> batches wordlist P resume st = []"
  by (simp add: batches_def permutations_too_long skip_items_drop chunked_Nil)

lemma length_pool_abcd: "length pool_abcd = 4"
  by (simp add: pool_abcd_def)

lemma perms_abcd_3: "length (permutations pool_abcd 3) = 24"
  by code_simp

lemma written_le_1: "m \<le> 1 \<Longrightarrow> written P (- 1) m = []"
  by (cases m) (simp_all add: written_def)

lemma chunked_single: "xs \<noteq> [] \<Longrightarrow> length xs \<le> n \<Longrightarrow> chunked xs n = [xs]"
  by (subst chunked.simps) (cases xs; auto simp: chunked_Nil)

subsection \<open>Further facts about the run\<close>

lemma length_words12: "length words12 = 12"
  by (simp add: words12_def)

lemma distinct_words12: "distinct words12"
  by (simp add: words12_def)

lemma fact_12: "fact 12 = (479001600::nat)"
  by (simp add: fact_numeral)

lemma length_perms_words12: "length (permutations words12 12) = 479001600"
proof -
  have "perm_count 12 12 * fact (12 - 12) = (fact 12 :: nat)"
    by (rule perm_count_fact) simp
  then have "perm_count 12 12 * 1 = (fact 12 :: nat)"
    by (simp only: diff_self_eq_0 fact_0)
  then have "length (permutations words12 12) * 1 = (fact 12 :: nat)"
    by (simp only: length_permutations length_words12)
  then show ?thesis
    by (simp only: nat_mult_1_right fact_12)
qed

lemma length_chunked: "0 < n \<Longrightarrow> length (chunked xs n) = (length xs + n - 1) div n"
proof (induction xs n rule: chunked.induct)
  case (1 xs n)
  show ?case
  proof (cases "xs = []")
    case True
    with 1(2) show ?thesis by (simp add: chunked_Nil)
  next
    case False
    then obtain k where k: "length xs = Suc k" by (cases xs) auto
    have step: "chunked xs n = take n xs # chunked (drop n xs) n"
      using False 1(2) by (rule chunked_step)
    have ih: "length (chunked (drop n xs) n) = (length (drop n xs) + n - 1) div n"
      using False 1(2) by (intro 1(1)) auto
    have "length xs + n - 1 = k + n" using k by simp
    then have r: "(length xs + n - 1) div n = Suc (k div n)"
      using 1(2) by (simp only: div_add_self2)
    have l: "(length (drop n xs) + n - 1) div n = k div n"
    proof (cases "Suc k \<le> n")
      case True
      then have "length (drop n xs) + n - 1 = n - 1" using k by simp
      moreover have "(n - 1) div n = 0" using 1(2) by simp
      moreover have "k div n = 0" using True by simp
      ultimately show ?thesis by simp
    next
      case False
      then have "length (drop n xs) + n - 1 = k" using k by simp
      then show ?thesis by simp
    qed
    show ?thesis
      by (simp only: step list.size ih l r)
  qed
qed

lemma written_append:
  "written P index (a + b) = written P index a @ written P (index + int a) b"
proof (induction a arbitrary: index)
  case 0
  show ?case by (simp add: written_0)
next
  case (Suc a)
  have "written P (index + 1) (a + b) = written P (index + 1) a @ written P (index + 1 + int a) b"
    by (rule Suc.IH)
  then show ?case
    by (simp add: written_Suc add.commute add.left_commute)
qed

lemma set_map_filter_upto:
  "v \<in> set (map g (filter Q [a..b])) \<longleftrightarrow> (\<exists>i. a \<le> i \<and> i \<le> b \<and> Q i \<and> v = g i)"
  by auto

lemma written_set:
  "v \<in> set (written P index m) \<longleftrightarrow>
     (\<exists>i. index \<le> i \<and> i \<le> index + int m - 1 \<and> i mod 10 = 0 \<and> v = (i + 1) * int (P * 1000))"
  unfolding written_def by (rule set_map_filter_upto)

lemma written_sorted: "0 < P \<Longrightarrow> sorted_wrt (<) (written P index m)"
proof -
  assume P: "0 < P"
  have base: "sorted_wrt (<) (filter (\<lambda>i. i mod 10 = 0) [index..index + int m - 1])"
    by (rule sorted_wrt_filter) (rule sorted_wrt_upto)
  have "sorted_wrt (\<lambda>x y. (x + 1) * int (P * 1000) < (y + 1) * int (P * 1000))
               (filter (\<lambda>i. i mod 10 = 0) [index..index + int m - 1])"
  proof (rule sorted_wrt_mono_rel[OF _ base])
    fix x y :: int
    assume "x < y"
    then have "x + 1 < y + 1" by simp
    moreover have "0 < int (P * 1000)" using P by simp
    ultimately show "(x + 1) * int (P * 1000) < (y + 1) * int (P * 1000)"
      by (rule mult_strict_right_mono)
  qed
  then show ?thesis
    unfolding written_def sorted_wrt_map .
qed

lemma run_prefix_saves:
  "0 < P \<Longrightarrow> accepted_offset (start_from_of resume st) \<Longrightarrow>
   saves (fst (run_prefix j derive wordlist target P resume st))
     = saves st @ written P (first_index P resume st) (min j (length (batches wordlist P resume st)))"
  by (simp add: run_prefix_loop for_loop_saves start_setup_frame min.commute)

lemma run_prefix_progress:
  "0 < P \<Longrightarrow> accepted_offset (start_from_of resume st) \<Longrightarrow>
   progress (fst (run_prefix j derive wordlist target P resume st))
     = (if written P (first_index P resume st) (min j (length (batches wordlist P resume st))) = []
        then progress st
        else last (written P (first_index P resume st) (min j (length (batches wordlist P resume st)))))"
  by (simp add: run_prefix_loop for_loop_progress start_setup_frame min.commute)

lemma run_prefix_evaluated:
  "0 < P \<Longrightarrow> accepted_offset (start_from_of resume st) \<Longrightarrow>
   evaluated (fst (run_prefix j derive wordlist target P resume st))
     = evaluated st @ take (j * (P * 1000))
         (drop (nat (start_from_of resume st)) (permutations wordlist 12))"
  by (simp add: run_prefix_loop for_loop_evaluated start_setup_frame batches_def
      concat_take_chunked skip_items_drop)

lemma start_saves:
  "0 < P \<Longrightarrow> accepted_offset (start_from_of resume st) \<Longrightarrow>
   saves (fst (start derive wordlist target P resume st))
     = saves st @ written P (first_index P resume st) (length (batches wordlist P resume st))"
  by (simp add: start_loop for_loop_saves start_setup_frame)

lemma start_progress:
  "0 < P \<Longrightarrow> accepted_offset (start_from_of resume st) \<Longrightarrow>
   progress (fst (start derive wordlist target P resume st))
     = (if written P (first_index P resume st) (length (batches wordlist P resume st)) = []
        then progress st
        else last (written P (first_index P resume st) (length (batches wordlist P resume st))))"
  by (simp add: start_loop for_loop_progress start_setup_frame)

lemma start_printed:
  "0 < P \<Longrightarrow> accepted_offset (start_from_of resume st) \<Longrightarrow>
   printed (fst (start derive wordlist target P resume st))
     = printed st @ concat (map (\<lambda>seeds. snd (process derive seeds target))
         (drop (nat (start_from_of resume st)) (permutations wordlist 12)))"
  by (simp add: start_loop for_loop_printed start_setup_frame concat_batches)

lemma start_csv:
  "0 < P \<Longrightarrow> accepted_offset (start_from_of resume st) \<Longrightarrow>
   csv_rows (fst (start derive wordlist target P resume st))
     = csv_rows (start_setup resume st) @ List.map_filter (match_record derive target)
         (drop (nat (start_from_of resume st)) (permutations wordlist 12))"
  by (simp add: start_loop for_loop_csv concat_batches)

lemma first_index_fresh: "first_index P False st = - 1"
  by (simp add: first_index_def start_from_of_def int_of_truediv_def)

lemma first_index_exact:
  "0 \<le> start_from_of resume st \<Longrightarrow> start_from_of resume st < 2 ^ 53 \<Longrightarrow> 0 < P \<Longrightarrow>
   first_index P resume st = start_from_of resume st div int (P * 1000) - 1"
  by (simp add: first_index_def int_of_truediv_exact)

lemma length_batches:
  "0 < P \<Longrightarrow> length (batches wordlist P resume st)
     = (length (permutations wordlist 12) - nat (start_from_of resume st) + P * 1000 - 1) div (P * 1000)"
  by (simp add: batches_def length_chunked skip_items_drop)

lemma distinct_permutations: "distinct xs \<Longrightarrow> distinct (permutations xs r)"
proof -
  assume "distinct xs"
  then have "sorted_wrt (lex_less (index_of xs)) (permutations xs r)"
    by (simp add: sorted_wrt_lex_permutations sorted_wrt_index_of)
  then show ?thesis
    by (rule sorted_wrt_irrefl_distinct) (rule lex_less_irrefl)
qed

lemma start_outcome:
  "0 < P \<Longrightarrow> accepted_offset (start_from_of resume st) \<Longrightarrow>
   snd (start derive wordlist target P resume st) = Completed"
  by (simp add: start_loop)

lemma process_cases:
  "derive (normalize seeds) = Address a \<Longrightarrow> a \<in> target \<Longrightarrow>
     process derive seeds target = ((True, Some (normalize seeds), Some a), [])"
  "derive (normalize seeds) = Address a \<Longrightarrow> a \<notin> target \<Longrightarrow>
     process derive seeds target = ((False, None, None), [])"
  "derive (normalize seeds) = RaisesValueError \<Longrightarrow>
     process derive seeds target = ((False, None, None), [])"
  "derive (normalize seeds) = RaisesOther e \<Longrightarrow>
     process derive seeds target = ((False, None, None), [e])"
  by (simp_all add: process_def)

lemma match_record_cases:
  "derive (normalize seeds) = Address a \<Longrightarrow> a \<in> target \<Longrightarrow>
     match_record derive target seeds = Some [normalize seeds, a]"
  "derive (normalize seeds) = Address a \<Longrightarrow> a \<notin> target \<Longrightarrow>
     match_record derive target seeds = None"
  by (simp_all add: match_record_def)

lemma normalize_abc: "normalize seeds_abc = ''a b c''"
  by code_simp

lemma length_batches_words12_1:
  "length (batches words12 1 False (initial_state rows p)) = 479002"
  by (simp add: length_batches start_from_initial length_perms_words12)

lemma length_batches_words12_2:
  "length (batches words12 2 False (initial_state rows p)) = 239501"
  by (simp add: length_batches start_from_initial length_perms_words12)

lemma div_mult_le_int: "0 < c \<Longrightarrow> (s div c) * c \<le> (s::int)"
proof -
  assume c: "0 < c"
  have "s = (s div c) * c + s mod c" by simp
  moreover have "0 \<le> s mod c" using c by simp
  ultimately show ?thesis by linarith
qed

lemma written_1:
  "written P index (Suc 0) = (if index mod 10 = 0 then [(index + 1) * int (P * 1000)] else [])"
  by (simp add: written_Suc written_0)

lemma written_none:
  "\<forall>i. index \<le> i \<and> i \<le> index + int m - 1 \<longrightarrow> i mod 10 \<noteq> 0 \<Longrightarrow> written P index m = []"
  by (simp add: written_def filter_empty_conv)

lemma written_minus1_2: "written P (- 1) 2 = [int (P * 1000)]"
proof -
  have "written P (- 1) (Suc (Suc 0)) = [int (P * 1000)]"
    by (simp add: written_Suc written_0)
  then show ?thesis by (simp only: numeral_2_eq_2)
qed

lemma length_take_batches:
  "0 < P \<Longrightarrow> m = min j (length (batches wordlist P resume st)) \<Longrightarrow> 0 < m \<Longrightarrow>
   (m - 1) * (P * 1000)
     \<le> length (take (j * (P * 1000)) (drop (nat (start_from_of resume st)) (permutations wordlist 12)))"
proof -
  assume P: "0 < P" and m: "m = min j (length (batches wordlist P resume st))" and pos: "0 < m"
  let ?c = "P * 1000"
  let ?cands = "drop (nat (start_from_of resume st)) (permutations wordlist 12)"
  have b: "batches wordlist P resume st = chunked ?cands ?c"
    by (simp add: batches_def skip_items_drop)
  from m have "m \<le> length (chunked ?cands ?c)" by (simp add: b)
  with pos have "m - 1 < length (chunked ?cands ?c)" by linarith
  then have l: "(m - 1) * ?c < length ?cands"
    using P by (intro chunked_lengths) simp_all
  from m pos have "m - 1 \<le> j" by simp
  then have "(m - 1) * ?c \<le> j * ?c" by (rule mult_le_mono1)
  with l show ?thesis by simp
qed

lemma islice_drop: "accepted_offset R \<Longrightarrow> islice xs R = Inr (drop (nat R) xs)"
  by (simp add: islice_def skip_items_drop accepted_offset_def)

lemma perms_abcd_12: "permutations pool_abcd 12 = []"
  by (rule permutations_too_long) (simp add: length_pool_abcd)

lemma lower_char_idem: "lower_char (lower_char c) = lower_char c"
proof (cases "is_upper c")
  case True
  then have "(of_char (char_of ((of_char c :: nat) + 32)) :: nat) = of_char c + 32"
    by (auto simp: is_upper_def of_char_of)
  with True have "\<not> is_upper (char_of ((of_char c :: nat) + 32))"
    by (auto simp: is_upper_def)
  with True show ?thesis by (simp add: lower_char_def)
next
  case False
  then show ?thesis by (simp add: lower_char_def)
qed

lemma set_strip: "set (strip s) \<subseteq> set s"
proof -
  have "set (dropWhile is_space (rev (dropWhile is_space s))) \<subseteq> set (rev (dropWhile is_space s))"
    by (meson set_dropWhileD subsetI)
  moreover have "set (dropWhile is_space s) \<subseteq> set s"
    by (meson set_dropWhileD subsetI)
  ultimately show ?thesis by (auto simp: strip_def)
qed

lemma set_str_join: "set (str_join sep ws) \<subseteq> set sep \<union> \<Union> (set ` set ws)"
  by (induction sep ws rule: str_join.induct) auto

lemma normalize_lower: "c \<in> set (normalize seeds) \<Longrightarrow> lower_char c = c"
proof -
  assume "c \<in> set (normalize seeds)"
  then have "c \<in> set '' '' \<or> (\<exists>w \<in> set seeds. c \<in> set (strip (lower w)))"
    using set_str_join[of "'' ''" "map (\<lambda>x. strip (lower x)) seeds"]
    by (auto simp: normalize_def)
  then show ?thesis
  proof
    assume "c \<in> set '' ''"
    then have "c = CHR '' ''" by simp
    then show ?thesis by (simp add: lower_char_def is_upper_def)
  next
    assume "\<exists>w \<in> set seeds. c \<in> set (strip (lower w))"
    then obtain w where "c \<in> set (strip (lower w))" by blast
    with set_strip have "c \<in> set (lower w)" by blast
    then obtain d where "c = lower_char d" by (auto simp: lower_def)
    then show ?thesis by (simp add: lower_char_idem)
  qed
qed

lemma normalize_example: "normalize [''  Ab '', ''CD''] = ''ab cd''"
  by code_simp

lemma start_rejects:
  "0 < P \<Longrightarrow> \<not> accepted_offset (start_from_of resume st) \<Longrightarrow>
   start derive wordlist target P resume st = (start_setup resume st, Raised ValueError)"
  by (auto simp add: start_def Let_def islice_def accepted_offset_def)

lemma permutations_enumeration:
  assumes "distinct pool" and "L \<le> length pool"
  shows "length (permutations pool L) = fact (length pool) div fact (length pool - L)
    \<and> (\<forall>p \<in> set (permutations pool L). length p = L \<and> distinct p \<and> set p \<subseteq> set pool)
    \<and> distinct (permutations pool L)
    \<and> sorted_wrt (lex_less (index_of pool)) (permutations pool L)"
proof (intro conjI ballI)
  have "length (permutations pool L) * fact (length pool - L) = fact (length pool)"
    using assms(2) by (simp add: length_permutations perm_count_fact)
  then show "length (permutations pool L) = fact (length pool) div fact (length pool - L)"
    by (metis fact_nonzero nonzero_mult_div_cancel_right)
next
  fix p assume "p \<in> set (permutations pool L)"
  from permutations_elem[OF this] assms(1)
  show "length p = L" "distinct p" "set p \<subseteq> set pool" by auto
next
  show s: "sorted_wrt (lex_less (index_of pool)) (permutations pool L)"
    using assms(1) by (simp add: sorted_wrt_lex_permutations sorted_wrt_index_of)
  show "distinct (permutations pool L)"
    by (rule sorted_wrt_irrefl_distinct[OF s]) (rule lex_less_irrefl)
qed

lemma length_pool_abcde: "length pool_abcde = 5"
  by (simp add: pool_abcde_def)

lemma perms_abcde_5: "length (permutations pool_abcde 5) = 120"
  by code_simp

lemma start_fresh_evaluated:
  "0 < P \<Longrightarrow>
   evaluated (fst (start derive wordlist target P False (initial_state rows p)))
     = permutations wordlist 12"
  using start_evaluated[OF _ accepted_fresh, of P derive wordlist target "initial_state rows p"]
  by (simp add: start_from_of_def initial_state_def)

section \<open>The claims\<close>

subsection \<open>C1: scenario A\<close>

text \<open>
  C1, as stated, at the pool \<open>a, b, c, d\<close> with no targets: the run does not generate 24
  candidates and the stored progress does not end at 24. \<open>start\<close> has no phrase-length
  parameter: it enumerates the 12-permutations of the pool, and a pool of four words has
  none.
\<close>

theorem scenario_A_counterexample:
  "length (evaluated (fst (start derive_invalid pool_abcd no_targets 1 False (initial_state [] 0)))) \<noteq> 24
   \<and> progress (fst (start derive_invalid pool_abcd no_targets 1 False (initial_state [] 0))) \<noteq> 24"
  by (simp add: start_loop accepted_fresh batches_short length_pool_abcd start_setup_frame)
    (simp add: initial_state_def)

text \<open>
  C1, amended. For the pool \<open>a, b, c, d\<close> and no targets, a fresh run completes with no
  candidate evaluated, no match recorded (the CSV holds its header only) and no progress
  saved: the stored progress is the value \<open>p\<close> stored before the run. The pool has 24
  permutations of length 3; the loop of \<open>start\<close> over them evaluates all 24 in a single
  batch numbered \<open>-1\<close>, records no match and leaves the stored progress at \<open>p\<close>.
\<close>

theorem scenario_A:
  "start derive pool_abcd no_targets (Suc n) False (initial_state rows p)
     = (\<lparr>csv_rows = [csv_header], progress = p, saves = [], statuses = [StartingProcess],
         found = [], printed = [], evaluated = []\<rparr>, Completed)
   \<and> length (permutations pool_abcd 3) = 24
   \<and> evaluated (for_loop derive no_targets (Suc n) (- 1)
        (chunked (permutations pool_abcd 3) (Suc n * 1000)) (initial_state [csv_header] p))
      = permutations pool_abcd 3
   \<and> csv_rows (for_loop derive no_targets (Suc n) (- 1)
        (chunked (permutations pool_abcd 3) (Suc n * 1000)) (initial_state [csv_header] p))
      = [csv_header]
   \<and> progress (for_loop derive no_targets (Suc n) (- 1)
        (chunked (permutations pool_abcd 3) (Suc n * 1000)) (initial_state [csv_header] p))
      = p"
proof (intro conjI)
  show "start derive pool_abcd no_targets (Suc n) False (initial_state rows p)
     = (\<lparr>csv_rows = [csv_header], progress = p, saves = [], statuses = [StartingProcess],
         found = [], printed = [], evaluated = []\<rparr>, Completed)"
    by (simp add: start_loop accepted_fresh batches_short length_pool_abcd)
      (simp add: initial_state_def start_setup_def)
  show l: "length (permutations pool_abcd 3) = 24" by (rule perms_abcd_3)
  then have ne: "permutations pool_abcd 3 \<noteq> []" by auto
  have ch: "chunked (permutations pool_abcd 3) (Suc n * 1000) = [permutations pool_abcd 3]"
    by (rule chunked_single[OF ne]) (simp add: l)
  show "evaluated (for_loop derive no_targets (Suc n) (- 1)
        (chunked (permutations pool_abcd 3) (Suc n * 1000)) (initial_state [csv_header] p))
      = permutations pool_abcd 3"
    by (simp add: for_loop_evaluated concat_chunked initial_state_def)
  have none: "match_record derive no_targets seeds = None" for seeds
    by (simp add: match_record_def no_targets_def split: derive_result.splits)
  show "csv_rows (for_loop derive no_targets (Suc n) (- 1)
        (chunked (permutations pool_abcd 3) (Suc n * 1000)) (initial_state [csv_header] p))
      = [csv_header]"
    by (simp add: for_loop_csv none List.map_filter_def initial_state_def)
  show "progress (for_loop derive no_targets (Suc n) (- 1)
        (chunked (permutations pool_abcd 3) (Suc n * 1000)) (initial_state [csv_header] p))
      = p"
    by (simp only: ch for_loop_progress) (simp add: written_le_1 initial_state_def)
qed

subsection \<open>C2: a pool shorter than the phrase\<close>

text \<open>
  C2, as stated, at the pool \<open>a, b, c, d\<close>, which is shorter than the phrase length 12 of
  \<open>start\<close>: the run does not fail. It completes; no error is raised.
\<close>

theorem short_pool_counterexample:
  "snd (start derive_invalid pool_abcd no_targets 1 False (initial_state [] 0)) = Completed
   \<and> snd (start derive_invalid pool_abcd no_targets 1 False (initial_state [] 0)) \<noteq> Raised ValueError"
  by (simp add: start_loop accepted_fresh)

text \<open>
  C2, amended. The phrase length is the constant 12. When the pool has fewer than 12 words,
  a run whose offset lies in the range \<open>0 .. sys.maxsize\<close> that \<open>islice\<close> accepts (a fresh
  run, whose offset is 0, or a resumed run whose stored progress lies in that range) raises
  nothing: it completes in the state left by its first statements (the first status message
  and, for a fresh run, the CSV cut to its header), with no candidate evaluated and no
  progress saved. A resumed run whose stored progress is negative or greater than
  \<open>sys.maxsize\<close> stops with the \<open>ValueError\<close> of \<open>islice\<close>, in the state left by the first
  statements, whatever the length of the pool.
\<close>

theorem short_pool_completes:
  "0 < P \<Longrightarrow>
   (length wordlist < 12 \<and> accepted_offset (start_from_of resume st) \<longrightarrow>
      start derive wordlist target P resume st = (start_setup resume st, Completed)
      \<and> evaluated (fst (start derive wordlist target P resume st)) = evaluated st
      \<and> saves (fst (start derive wordlist target P resume st)) = saves st)
   \<and> (length wordlist < 12 \<longrightarrow>
        start derive wordlist target P False st = (start_setup False st, Completed))
   \<and> (\<not> accepted_offset (start_from_of resume st) \<longrightarrow>
        start derive wordlist target P resume st = (start_setup resume st, Raised ValueError))"
  by (simp add: start_loop batches_short start_setup_frame start_rejects accepted_fresh)

theorem short_pool_completes_witness:
  "(0::nat) < 1 \<and> length pool_abcd < 12
   \<and> accepted_offset (start_from_of True (initial_state [] 5000))
   \<and> \<not> accepted_offset (start_from_of True (initial_state [] (- 1)))
   \<and> start derive_invalid pool_abcd no_targets 1 True (initial_state [] 5000)
       = (start_setup True (initial_state [] 5000), Completed)
   \<and> start derive_invalid pool_abcd no_targets 1 False (initial_state [] 5000)
       = (start_setup False (initial_state [] 5000), Completed)
   \<and> start derive_invalid pool_abcd no_targets 1 True (initial_state [] (- 1))
       = (start_setup True (initial_state [] (- 1)), Raised ValueError)"
proof -
  have P: "(0::nat) < 1" by simp
  have l: "length pool_abcd < 12" by (simp add: length_pool_abcd)
  have a: "accepted_offset (start_from_of True (initial_state [] 5000))"
    by (simp add: start_from_initial accepted_offset_def sys_maxsize_def)
  have n: "\<not> accepted_offset (start_from_of True (initial_state [] (- 1)))"
    by (simp add: start_from_initial accepted_offset_def)
  note t1 = short_pool_completes[OF P, where wordlist = pool_abcd and resume = True
      and st = "initial_state [] 5000" and derive = derive_invalid and target = no_targets]
  note t2 = short_pool_completes[OF P, where wordlist = pool_abcd and resume = True
      and st = "initial_state [] (- 1)" and derive = derive_invalid and target = no_targets]
  from t1 t2 P l a n show ?thesis by (simp only: simp_thms)
qed

subsection \<open>C3: abnormal failures in a batch\<close>

text \<open>
  C3, as stated, at 12 words, one process and a derivation that fails unexpectedly on
  every phrase: every candidate of every batch fails abnormally, yet no batch is retried
  and the run does not halt. It completes; the candidates submitted to the worker pool are
  exactly the enumeration, each once; one diagnostic is printed per candidate.
\<close>

theorem no_retry_counterexample:
  "snd (start derive_fault words12 no_targets 1 False (initial_state [] 0)) = Completed
   \<and> evaluated (fst (start derive_fault words12 no_targets 1 False (initial_state [] 0)))
       = permutations words12 12
   \<and> distinct (evaluated (fst (start derive_fault words12 no_targets 1 False (initial_state [] 0))))
   \<and> length (printed (fst (start derive_fault words12 no_targets 1 False (initial_state [] 0))))
       = 479001600"
proof -
  have P: "(0::nat) < 1" by simp
  have s: "accepted_offset (start_from_of False (initial_state [] 0))"
    by (rule accepted_fresh)
  have e: "evaluated (fst (start derive_fault words12 no_targets 1 False (initial_state [] 0)))
       = permutations words12 12"
    using start_evaluated[OF P s, of derive_fault words12 no_targets]
    by (simp add: start_from_of_def initial_state_def)
  have pr: "snd (process derive_fault seeds no_targets) = [''fault'']" for seeds
    by (simp add: process_def derive_fault_def)
  have len: "length (concat (map (\<lambda>x. [c]) xs)) = length xs" for c :: string and xs :: "string list list"
    by (induction xs) auto
  have p: "length (printed (fst (start derive_fault words12 no_targets 1 False (initial_state [] 0))))
       = 479001600"
    using start_printed[OF P s, of derive_fault words12 no_targets]
    by (simp add: start_from_of_def pr len length_perms_words12 initial_state_def)
  show ?thesis
    by (simp only: e p start_outcome[OF P s] distinct_permutations[OF distinct_words12])
qed

text \<open>
  C3, amended. A candidate whose derivation fails unexpectedly (an exception other than
  \<open>ValueError\<close>) gets the no-match result and one printed diagnostic. However many
  candidates of a batch fail so, no batch is retried and the run does not halt: a run whose
  offset lies in the range \<open>0 .. sys.maxsize\<close> that \<open>islice\<close> accepts (a fresh run, or a
  resumed run whose stored progress lies in that range) completes, and submits each
  candidate from its offset on to the worker pool exactly once, in order. There is no
  \<open>WorkerPoolFailure\<close>.
\<close>

theorem fault_no_retry:
  "0 < P \<Longrightarrow> accepted_offset (start_from_of resume st) \<Longrightarrow>
   snd (start derive wordlist target P resume st) = Completed
   \<and> evaluated (fst (start derive wordlist target P resume st))
       = evaluated st @ drop (nat (start_from_of resume st)) (permutations wordlist 12)
   \<and> (derive (normalize seeds) = RaisesOther e \<longrightarrow>
        process derive seeds target = ((False, None, None), [e]))"
  by (simp add: start_outcome start_evaluated process_cases)

theorem fault_no_retry_witness:
  "(0::nat) < 1 \<and> accepted_offset (start_from_of False (initial_state [] 0))
   \<and> derive_fault (normalize seeds_abc) = RaisesOther ''fault''
   \<and> snd (start derive_fault words12 no_targets 1 False (initial_state [] 0)) = Completed
   \<and> process derive_fault seeds_abc no_targets = ((False, None, None), [''fault''])"
  using fault_no_retry[of 1 False "initial_state [] 0" derive_fault words12 no_targets seeds_abc "''fault''"]
  by (simp add: accepted_fresh derive_fault_def)

subsection \<open>C4: when the progress is saved\<close>

text \<open>
  C4, as stated, at 12 words and two processes (batches of 2000): the fresh run completes
  after evaluating all 479001600 candidates, and the stored progress is 478982000. The
  last save follows the batch numbered 239490; the nine batches after it and the end of
  the run save nothing.
\<close>

theorem final_checkpoint_counterexample:
  "snd (start derive_invalid words12 no_targets 2 False (initial_state [] 0)) = Completed
   \<and> length (evaluated (fst (start derive_invalid words12 no_targets 2 False (initial_state [] 0))))
       = 479001600
   \<and> progress (fst (start derive_invalid words12 no_targets 2 False (initial_state [] 0)))
       = 478982000"
proof -
  have P: "(0::nat) < 2" by simp
  have s: "accepted_offset (start_from_of False (initial_state [] 0))"
    by (rule accepted_fresh)
  have e: "length (evaluated (fst (start derive_invalid words12 no_targets 2 False (initial_state [] 0))))
       = 479001600"
    using start_evaluated[OF P s, of derive_invalid words12 no_targets]
    by (simp add: start_from_of_def initial_state_def length_perms_words12)
  have w1: "written 2 (- 1) (239492 + 9) = written 2 (- 1) 239492 @ written 2 (- 1 + int 239492) 9"
    by (rule written_append)
  have w2: "written 2 (- 1) (239491 + 1) = written 2 (- 1) 239491 @ written 2 (- 1 + int 239491) 1"
    by (rule written_append)
  have w3: "written 2 (- 1 + int 239492) 9 = []"
    by (rule written_none) presburger
  have w4: "written 2 (- 1 + int 239491) 1 = [478982000]"
    by (simp add: written_1)
  have "written 2 (- 1) 239501 = written 2 (- 1) (239492 + 9)" by simp
  also have "\<dots> = written 2 (- 1) 239492 @ []" by (simp only: w1 w3)
  also have "\<dots> = written 2 (- 1) (239491 + 1)" by simp
  also have "\<dots> = written 2 (- 1) 239491 @ [478982000]" by (simp only: w2 w4)
  finally have w: "written 2 (- 1) 239501 = written 2 (- 1) 239491 @ [478982000]" .
  have p: "progress (fst (start derive_invalid words12 no_targets 2 False (initial_state [] 0)))
       = 478982000"
    by (simp only: start_progress[OF P s] first_index_fresh length_batches_words12_2 w) simp
  show ?thesis
    by (simp only: e p start_outcome[OF P s])
qed

text \<open>
  C4, amended. The progress is saved after each batch whose number is a multiple of 10, so
  saves are 10 batches apart. The first batch of a run has the number
  \<open>int(start_from / batch_size) - 1\<close>, where the quotient is computed in floating point: for
  an offset below \<open>2 ^ 53\<close> this is \<open>start_from div batch_size - 1\<close>; from \<open>2 ^ 53\<close> on the
  rounded quotient can differ from the integer quotient. In a fresh run the first batch has
  the number \<open>-1\<close>, so nothing is saved after the first batch and the first save, of one
  batch size, follows the second batch. Nothing is saved at the end of the run: the final
  state is the state after the last batch. This holds for the runs whose offset lies in the
  range \<open>0 .. sys.maxsize\<close> that \<open>islice\<close> accepts; the others stop before the first batch.
\<close>

theorem checkpoint_schedule:
  "0 < P \<Longrightarrow> accepted_offset (start_from_of resume st) \<Longrightarrow>
   saves (fst (run_prefix j derive wordlist target P resume st))
     = saves st @ written P (first_index P resume st)
         (min j (length (batches wordlist P resume st)))
   \<and> start derive wordlist target P resume st
     = run_prefix (length (batches wordlist P resume st)) derive wordlist target P resume st
   \<and> first_index P resume st
     = int_of_truediv (start_from_of resume st) (int (P * 1000)) - 1
   \<and> (start_from_of resume st < 2 ^ 53 \<longrightarrow>
        first_index P resume st = start_from_of resume st div int (P * 1000) - 1)
   \<and> first_index P False st = - 1
   \<and> written P (- 1) 1 = []
   \<and> written P (- 1) 2 = [int (P * 1000)]"
proof (intro conjI impI)
  assume P: "0 < P" and s: "accepted_offset (start_from_of resume st)"
  show "saves (fst (run_prefix j derive wordlist target P resume st))
     = saves st @ written P (first_index P resume st)
         (min j (length (batches wordlist P resume st)))"
    by (rule run_prefix_saves[OF P s])
  show "start derive wordlist target P resume st
     = run_prefix (length (batches wordlist P resume st)) derive wordlist target P resume st"
    by (simp add: run_prefix_all[OF P s])
  show "first_index P resume st
     = int_of_truediv (start_from_of resume st) (int (P * 1000)) - 1"
    by (simp add: first_index_def)
  show "first_index P False st = - 1" by (rule first_index_fresh)
  show "written P (- 1) 1 = []" by (simp add: written_le_1)
  show "written P (- 1) 2 = [int (P * 1000)]" by (rule written_minus1_2)
  assume "start_from_of resume st < 2 ^ 53"
  moreover from s have "0 \<le> start_from_of resume st" by (simp add: accepted_offset_def)
  ultimately show "first_index P resume st = start_from_of resume st div int (P * 1000) - 1"
    using P by (simp add: first_index_exact)
qed

theorem checkpoint_schedule_witness:
  "(0::nat) < 1 \<and> accepted_offset (start_from_of False (initial_state [] 0))
   \<and> accepted_offset (start_from_of True (initial_state [] 11000))
   \<and> start_from_of True (initial_state [] 11000) < 2 ^ 53
   \<and> accepted_offset (start_from_of True (initial_state [] 35184372088831999))
   \<and> saves (fst (run_prefix 2 derive_invalid words12 no_targets 1 False (initial_state [] 0)))
       = [1000]
   \<and> saves (fst (run_prefix 1 derive_invalid words12 no_targets 1 False (initial_state [] 0)))
       = []
   \<and> first_index 1 True (initial_state [] 11000) = 10
   \<and> first_index 1 True (initial_state [] 35184372088831999) = 35184372088831"
proof -
  have P: "(0::nat) < 1" by simp
  have s: "accepted_offset (start_from_of False (initial_state [] 0))"
    by (rule accepted_fresh)
  have s1: "accepted_offset (start_from_of True (initial_state [] 11000))"
    by (simp add: start_from_initial accepted_offset_def sys_maxsize_def)
  have s2: "accepted_offset (start_from_of True (initial_state [] 35184372088831999))"
    by (simp add: start_from_initial accepted_offset_def sys_maxsize_def)
  have l1: "start_from_of True (initial_state [] 11000) < 2 ^ 53"
    by (simp add: start_from_initial)
  have st: "saves (initial_state [] 0) = []" by (simp add: initial_state_def)
  from checkpoint_schedule[OF P s, of 2 derive_invalid words12 no_targets]
  have a: "saves (fst (run_prefix 2 derive_invalid words12 no_targets 1 False (initial_state [] 0)))
       = [1000]"
    by (simp only: length_batches_words12_1 first_index_fresh st) simp
  from checkpoint_schedule[OF P s, of 1 derive_invalid words12 no_targets]
  have b: "saves (fst (run_prefix 1 derive_invalid words12 no_targets 1 False (initial_state [] 0)))
       = []"
    by (simp only: length_batches_words12_1 first_index_fresh st) simp
  from checkpoint_schedule[OF P s1, of 0 derive_invalid words12 no_targets] l1
  have c: "first_index 1 True (initial_state [] 11000) = 10"
    by (simp add: start_from_initial)
  from checkpoint_schedule[OF P s2, of 0 derive_invalid words12 no_targets]
  have d: "first_index 1 True (initial_state [] 35184372088831999) = 35184372088831"
    by (simp add: start_from_initial int_of_truediv_example1)
  from P s s1 s2 l1 a b c d show ?thesis by (simp only: simp_thms)
qed

subsection \<open>C5: the values of the stored progress\<close>

text \<open>
  C5, as stated, at 12 words and one process (batches of 1000), in a fresh run started
  while the configuration still holds the progress 5000 of an earlier run: after the first
  batch the stored progress is 5000 although 1000 candidates have been evaluated, and after
  the second batch it has decreased to 1000.
\<close>

theorem stale_progress_counterexample:
  "progress (fst (run_prefix 1 derive_invalid words12 no_targets 1 False (initial_state [] 5000)))
     = 5000
   \<and> length (evaluated (fst (run_prefix 1 derive_invalid words12 no_targets 1 False
        (initial_state [] 5000)))) = 1000
   \<and> progress (fst (run_prefix 2 derive_invalid words12 no_targets 1 False (initial_state [] 5000)))
     = 1000"
proof -
  have P: "(0::nat) < 1" by simp
  have s: "accepted_offset (start_from_of False (initial_state [] 5000))"
    by (rule accepted_fresh)
  have p0: "progress (initial_state [] 5000) = 5000" by (simp add: initial_state_def)
  have m1: "min 1 (479002::nat) = 1" and m2: "min 2 (479002::nat) = 2" by simp_all
  have a: "progress (fst (run_prefix 1 derive_invalid words12 no_targets 1 False (initial_state [] 5000)))
     = 5000"
    by (simp only: run_prefix_progress[OF P s] length_batches_words12_1 first_index_fresh m1
        written_le_1[OF order_refl] p0) simp
  have b: "length (evaluated (fst (run_prefix 1 derive_invalid words12 no_targets 1 False
        (initial_state [] 5000)))) = 1000"
    using run_prefix_evaluated[OF P s, of 1 derive_invalid words12 no_targets]
    by (simp add: start_from_of_def initial_state_def length_perms_words12)
  have c: "progress (fst (run_prefix 2 derive_invalid words12 no_targets 1 False (initial_state [] 5000)))
     = 1000"
    by (simp only: run_prefix_progress[OF P s] length_batches_words12_1 first_index_fresh m2
        written_minus1_2) simp
  from a b c show ?thesis by (simp only: simp_thms)
qed

text \<open>
  C5, amended. For a run whose offset lies in the range \<open>0 .. sys.maxsize\<close> that \<open>islice\<close>
  accepts: every value that the run writes to the stored progress is a multiple of the
  batch size; the values written by a run increase strictly; once the run has written, the
  stored progress is the last value written. When the offset is below \<open>2 ^ 53\<close> (as it is
  in every fresh run), every value written is at most the offset of the run plus the number
  of candidates the run has evaluated so far (in a fresh run: at most the number of
  evaluated candidates). Nothing is said of the stored progress before the first write of
  the run: it is the value left by earlier runs.
\<close>

theorem checkpoint_values:
  assumes P: "0 < P" and s: "accepted_offset (start_from_of resume st)"
    and S: "S = fst (run_prefix j derive wordlist target P resume st)"
    and st: "saves st = []" "evaluated st = []"
  shows "(\<forall>v \<in> set (saves S). int (P * 1000) dvd v)
    \<and> (start_from_of resume st < 2 ^ 53 \<longrightarrow>
         (\<forall>v \<in> set (saves S). v \<le> start_from_of resume st + int (length (evaluated S))))
    \<and> sorted_wrt (<) (saves S)
    \<and> (saves S \<noteq> [] \<longrightarrow> progress S = last (saves S))"
proof (intro conjI ballI impI)
  let ?c = "P * 1000"
  let ?m = "min j (length (batches wordlist P resume st))"
  let ?idx = "first_index P resume st"
  have sv: "saves S = written P ?idx ?m"
    by (simp add: S run_prefix_saves[OF P s] st)
  have ev: "evaluated S = take (j * ?c) (drop (nat (start_from_of resume st)) (permutations wordlist 12))"
    by (simp add: S run_prefix_evaluated[OF P s] st)
  show "sorted_wrt (<) (saves S)"
    by (simp only: sv written_sorted[OF P])
  have pr: "progress S = (if written P ?idx ?m = [] then progress st else last (written P ?idx ?m))"
    by (simp add: S run_prefix_progress[OF P s])
  {
    assume "saves S \<noteq> []"
    then have "written P ?idx ?m \<noteq> []" using sv by simp
    then show "progress S = last (saves S)"
      using pr sv by simp
  }
  {
    fix v assume v: "v \<in> set (saves S)"
    then obtain i where i: "?idx \<le> i" "i \<le> ?idx + int ?m - 1" "v = (i + 1) * int ?c"
      unfolding sv written_set by blast
    show "int ?c dvd v" by (simp only: i(3) dvd_triv_right)
  }
  assume small: "start_from_of resume st < 2 ^ 53"
  from s have nonneg: "0 \<le> start_from_of resume st" by (simp add: accepted_offset_def)
  have idx: "?idx = start_from_of resume st div int ?c - 1"
    by (rule first_index_exact[OF nonneg small P])
  fix v assume v: "v \<in> set (saves S)"
  then obtain i where i: "?idx \<le> i" "i \<le> ?idx + int ?m - 1" "v = (i + 1) * int ?c"
    unfolding sv written_set by blast
  from i(1,2) have pos: "0 < ?m" by linarith
  have len: "(?m - 1) * ?c \<le> length (evaluated S)"
    unfolding ev by (rule length_take_batches[OF P refl pos])
  have cpos: "0 < int ?c" using P by simp
  have "i + 1 \<le> start_from_of resume st div int ?c + int (?m - 1)"
    using i(2) pos by (simp add: idx)
  then have "v \<le> (start_from_of resume st div int ?c + int (?m - 1)) * int ?c"
    unfolding i(3) using cpos by (intro mult_right_mono) simp_all
  also have "\<dots> = (start_from_of resume st div int ?c) * int ?c + int ((?m - 1) * ?c)"
    by (simp only: distrib_right of_nat_mult)
  also have "\<dots> \<le> start_from_of resume st + int ((?m - 1) * ?c)"
    using div_mult_le_int[OF cpos, of "start_from_of resume st"] by simp
  also have "\<dots> \<le> start_from_of resume st + int (length (evaluated S))"
    by (rule add_left_mono) (simp only: of_nat_le_iff len)
  finally show "v \<le> start_from_of resume st + int (length (evaluated S))" .
qed

theorem checkpoint_values_witness:
  "(0::nat) < 1 \<and> accepted_offset (start_from_of False (initial_state [] 0))
   \<and> start_from_of False (initial_state [] 0) < 2 ^ 53
   \<and> saves (initial_state [] 0) = [] \<and> evaluated (initial_state [] 0) = []
   \<and> saves (fst (run_prefix 2 derive_invalid words12 no_targets 1 False (initial_state [] 0)))
       = [1000]
   \<and> 1000 \<le> start_from_of False (initial_state [] 0)
       + int (length (evaluated (fst (run_prefix 2 derive_invalid words12 no_targets 1 False
           (initial_state [] 0)))))
   \<and> progress (fst (run_prefix 2 derive_invalid words12 no_targets 1 False (initial_state [] 0)))
       = 1000"
proof -
  have P: "(0::nat) < 1" by simp
  have s: "accepted_offset (start_from_of False (initial_state [] 0))"
    by (rule accepted_fresh)
  have l: "start_from_of False (initial_state [] 0) < 2 ^ 53"
    by (simp add: start_from_initial)
  have st: "saves (initial_state [] 0) = []" "evaluated (initial_state [] 0) = []"
    by (simp_all add: initial_state_def)
  have m2: "min 2 (479002::nat) = 2" by simp
  have sv: "saves (fst (run_prefix 2 derive_invalid words12 no_targets 1 False (initial_state [] 0)))
       = [1000]"
    by (simp only: run_prefix_saves[OF P s] length_batches_words12_1 first_index_fresh m2
        written_minus1_2 st) simp
  note t = checkpoint_values[OF P s refl st, of 2 derive_invalid words12 no_targets]
  from t sv l have b: "1000 \<le> start_from_of False (initial_state [] 0)
       + int (length (evaluated (fst (run_prefix 2 derive_invalid words12 no_targets 1 False
           (initial_state [] 0)))))"
    by simp
  from t sv have c: "progress (fst (run_prefix 2 derive_invalid words12 no_targets 1 False
      (initial_state [] 0))) = 1000"
    by simp
  from P s l st sv b c show ?thesis by (simp only: simp_thms)
qed

subsection \<open>C6: the enumeration of the candidates\<close>

text \<open>
  C6, as stated, at the pool \<open>a, b, c, d, e\<close> of five distinct words and the phrase length
  \<open>L = 5\<close>: the claim promises \<open>5! / 0! = 120\<close> candidates, and \<open>itertools.permutations\<close>
  does have 120 permutations of length 5 of this pool, but the candidate generator of the
  program is \<open>permutations(wordlist, 12)\<close>, with the phrase length fixed at 12: a run over
  this pool generates and evaluates no candidate at all.
\<close>

theorem phrase_length_counterexample:
  "distinct pool_abcde \<and> 5 \<le> length pool_abcde
   \<and> fact (length pool_abcde) div fact (length pool_abcde - 5) = (120::nat)
   \<and> length (permutations pool_abcde 5) = 120
   \<and> evaluated (fst (start derive_invalid pool_abcde no_targets 1 False (initial_state [] 0))) = []"
proof -
  have d: "distinct pool_abcde" by (simp add: pool_abcde_def)
  have f: "fact (length pool_abcde) div fact (length pool_abcde - 5) = (120::nat)"
    by (simp add: length_pool_abcde fact_numeral)
  have e: "evaluated (fst (start derive_invalid pool_abcde no_targets 1 False (initial_state [] 0))) = []"
    by (simp add: start_fresh_evaluated permutations_too_long length_pool_abcde)
  from d f e show ?thesis by (simp add: length_pool_abcde perms_abcde_5)
qed

text \<open>
  C6, amended. The phrase length is the constant 12. For every pool of \<open>n \<ge> 12\<close> distinct
  words, the candidates that a fresh run generates and evaluates are the 12-permutations of
  the pool: exactly \<open>n! / (n - 12)!\<close> candidates; each is a sequence of 12 distinct words of
  the pool; no candidate occurs twice; and the candidates come in lexicographic order of
  the positions of their words in the pool.
\<close>

theorem run_enumeration:
  assumes "distinct pool" and "12 \<le> length pool" and "0 < P"
    and E: "E = evaluated (fst (start derive pool target P False (initial_state rows p)))"
  shows "E = permutations pool 12
    \<and> length E = fact (length pool) div fact (length pool - 12)
    \<and> (\<forall>c \<in> set E. length c = 12 \<and> distinct c \<and> set c \<subseteq> set pool)
    \<and> distinct E
    \<and> sorted_wrt (lex_less (index_of pool)) E"
proof -
  have e: "E = permutations pool 12"
    unfolding E using assms(3) by (rule start_fresh_evaluated)
  from permutations_enumeration[OF assms(1,2)] show ?thesis
    unfolding e by simp
qed

theorem run_enumeration_witness:
  "distinct words12 \<and> 12 \<le> length words12 \<and> (0::nat) < 1
   \<and> length (evaluated (fst (start derive_invalid words12 no_targets 1 False (initial_state [] 0))))
       = 479001600
   \<and> distinct (evaluated (fst (start derive_invalid words12 no_targets 1 False (initial_state [] 0))))
   \<and> sorted_wrt (lex_less (index_of words12))
        (evaluated (fst (start derive_invalid words12 no_targets 1 False (initial_state [] 0))))"
proof -
  have P: "(0::nat) < 1" by simp
  have l: "12 \<le> length words12" by (simp add: length_words12)
  have f: "fact (length words12) div fact (length words12 - 12) = (479001600::nat)"
    by (simp only: length_words12 diff_self_eq_0 fact_0 fact_12 div_by_1)
  note t = conjunct2[OF run_enumeration[OF distinct_words12 l P refl,
        of derive_invalid no_targets "[]" 0]]
  from t f distinct_words12 l P show ?thesis by (simp only: simp_thms)
qed

subsection \<open>C7: starting from a rank\<close>

text \<open>
  C7, as stated, at 12 words and the start rank \<open>R = 2 ^ 63\<close>, which is at least the size
  479001600 of the permutation space: generating from \<open>R\<close> does not produce zero elements.
  \<open>itertools.islice\<close> refuses a start above \<open>sys.maxsize = 2 ^ 63 - 1\<close> with \<open>ValueError\<close>,
  and a run resumed at this stored progress stops with that error.
\<close>

theorem skip_beyond_maxsize_counterexample:
  "int (length (permutations words12 12)) \<le> 9223372036854775808
   \<and> islice (permutations words12 12) 9223372036854775808 = Inl ValueError
   \<and> islice (permutations words12 12) 9223372036854775808 \<noteq> Inr []
   \<and> snd (start derive_invalid words12 no_targets 1 True (initial_state [] 9223372036854775808))
       = Raised ValueError"
proof -
  have n: "\<not> accepted_offset (start_from_of True (initial_state [] 9223372036854775808))"
    by (simp add: start_from_initial accepted_offset_def sys_maxsize_def)
  have i: "islice (permutations words12 12) 9223372036854775808 = Inl ValueError"
    by (simp add: islice_def sys_maxsize_def)
  have l: "int (length (permutations words12 12)) \<le> 9223372036854775808"
    by (simp add: length_perms_words12)
  from n have s: "snd (start derive_invalid words12 no_targets 1 True
      (initial_state [] 9223372036854775808)) = Raised ValueError"
    by (simp add: start_rejects)
  from i l s show ?thesis by simp
qed

text \<open>
  C7, amended. For every start rank \<open>R\<close> with \<open>0 \<le> R \<le> sys.maxsize\<close> (\<open>2 ^ 63 - 1\<close>), the
  candidates generated from \<open>R\<close> are the full enumeration without its first \<open>R\<close> elements:
  \<open>size - R\<close> candidates, none when \<open>R\<close> is at least the size. This holds of the generator
  for every phrase length, and of a resumed run: it completes, and the candidates it
  submits to the worker pool are the 12-permutations from rank \<open>R\<close> on, where \<open>R\<close> is the
  stored progress. For a start rank below 0 or above \<open>sys.maxsize\<close> the generator raises
  \<open>ValueError\<close> and the resumed run stops with it.
\<close>

theorem skip_invariance:
  "(accepted_offset R \<longrightarrow>
      islice (permutations pool L) R = Inr (drop (nat R) (permutations pool L))
      \<and> (\<exists>ys. islice (permutations pool L) R = Inr ys
             \<and> length ys = length (permutations pool L) - nat R)
      \<and> (int (length (permutations pool L)) \<le> R \<longrightarrow> islice (permutations pool L) R = Inr [])
      \<and> (0 < P \<longrightarrow>
           snd (start derive pool target P True (initial_state rows R)) = Completed
           \<and> evaluated (fst (start derive pool target P True (initial_state rows R)))
               = drop (nat R) (permutations pool 12)))
   \<and> (\<not> accepted_offset R \<longrightarrow>
        islice (permutations pool L) R = Inl ValueError
        \<and> (0 < P \<longrightarrow>
             snd (start derive pool target P True (initial_state rows R)) = Raised ValueError))"
proof (intro conjI impI)
  assume R: "accepted_offset R"
  show i: "islice (permutations pool L) R = Inr (drop (nat R) (permutations pool L))"
    using R by (rule islice_drop)
  show "\<exists>ys. islice (permutations pool L) R = Inr ys
          \<and> length ys = length (permutations pool L) - nat R"
    by (simp add: i)
  {
    assume "int (length (permutations pool L)) \<le> R"
    then show "islice (permutations pool L) R = Inr []" by (simp add: i)
  }
  assume P: "0 < P"
  have s: "accepted_offset (start_from_of True (initial_state rows R))"
    using R by (simp add: start_from_initial)
  show "snd (start derive pool target P True (initial_state rows R)) = Completed"
    by (rule start_outcome[OF P s])
  show "evaluated (fst (start derive pool target P True (initial_state rows R)))
          = drop (nat R) (permutations pool 12)"
    using start_evaluated[OF P s, of derive pool target]
    by (simp add: start_from_of_def initial_state_def)
next
  assume R: "\<not> accepted_offset R"
  then show "islice (permutations pool L) R = Inl ValueError"
    by (auto simp add: islice_def accepted_offset_def)
  assume P: "0 < P"
  have s: "\<not> accepted_offset (start_from_of True (initial_state rows R))"
    using R by (simp add: start_from_initial)
  show "snd (start derive pool target P True (initial_state rows R)) = Raised ValueError"
    by (simp add: start_rejects[OF P s])
qed

theorem skip_invariance_witness:
  "accepted_offset 10 \<and> accepted_offset 479001599 \<and> accepted_offset 479001600
   \<and> \<not> accepted_offset (- 1) \<and> (0::nat) < 1
   \<and> islice (permutations pool_abcd 3) 10 = Inr (drop 10 (permutations pool_abcd 3))
   \<and> length (drop 10 (permutations pool_abcd 3)) = 14
   \<and> int (length (permutations words12 12)) \<le> 479001600
   \<and> islice (permutations words12 12) 479001600 = Inr []
   \<and> snd (start derive_invalid words12 no_targets 1 True (initial_state [] 479001599))
       = Completed
   \<and> evaluated (fst (start derive_invalid words12 no_targets 1 True (initial_state [] 479001599)))
       = drop 479001599 (permutations words12 12)
   \<and> length (drop 479001599 (permutations words12 12)) = 1
   \<and> snd (start derive_invalid words12 no_targets 1 True (initial_state [] (- 1)))
       = Raised ValueError"
proof -
  have a: "accepted_offset 10" and b: "accepted_offset 479001599"
    and c: "accepted_offset 479001600"
    by (simp_all add: accepted_offset_def sys_maxsize_def)
  have n: "\<not> accepted_offset (- 1)" by (simp add: accepted_offset_def)
  have P: "(0::nat) < 1" by simp
  note ta = skip_invariance[where R = 10 and pool = pool_abcd and L = 3 and P = 1
      and derive = derive_invalid and target = no_targets and rows = "[]"]
  note tb = skip_invariance[where R = 479001599 and pool = words12 and L = 12 and P = 1
      and derive = derive_invalid and target = no_targets and rows = "[]"]
  note tc = skip_invariance[where R = 479001600 and pool = words12 and L = 12 and P = 1
      and derive = derive_invalid and target = no_targets and rows = "[]"]
  note tn = skip_invariance[where R = "- 1" and pool = words12 and L = 12 and P = 1
      and derive = derive_invalid and target = no_targets and rows = "[]"]
  from ta a have c1: "islice (permutations pool_abcd 3) 10 = Inr (drop 10 (permutations pool_abcd 3))"
    by simp
  have c2: "length (drop 10 (permutations pool_abcd 3)) = 14" by (simp add: perms_abcd_3)
  have l: "int (length (permutations words12 12)) \<le> 479001600"
    by (simp add: length_perms_words12)
  from tc c l have c3: "islice (permutations words12 12) 479001600 = Inr []" by blast
  from tb b P have c4: "snd (start derive_invalid words12 no_targets 1 True
      (initial_state [] 479001599)) = Completed" by blast
  from tb b P have c5: "evaluated (fst (start derive_invalid words12 no_targets 1 True
      (initial_state [] 479001599))) = drop 479001599 (permutations words12 12)"
    by simp
  have c6: "length (drop 479001599 (permutations words12 12)) = 1"
    by (simp add: length_perms_words12)
  from tn n P have c7: "snd (start derive_invalid words12 no_targets 1 True
      (initial_state [] (- 1))) = Raised ValueError" by blast
  from a b c n P c1 c2 l c3 c4 c5 c6 c7 show ?thesis by (simp only: simp_thms)
qed

subsection \<open>C8: recording the matches\<close>

text \<open>
  C8. For a candidate whose derivation succeeds with an address: when the address is a
  target, \<open>process\<close> returns the match with the normalized phrase of the candidate (its
  words lower-cased, stripped and joined by single spaces; no upper-case letter is left in
  it) and the address, and the batch loop appends exactly one row, that phrase and that
  address, to the CSV; when the address is not a target, \<open>process\<close> returns no match and no
  row is appended. In general the rows appended for a batch, and by a whole run whose
  offset lies in the range \<open>0 .. sys.maxsize\<close> that \<open>islice\<close> accepts, are the rows of the
  matching candidates, one for each, in the order of the candidates. The words are strings
  of code points below 256, on which \<open>lower\<close> and \<open>strip\<close> follow \<open>str.lower\<close> and
  \<open>str.strip\<close>.
\<close>

theorem match_recording:
  "(derive (normalize seeds) = Address a \<and> a \<in> target \<longrightarrow>
      process derive seeds target = ((True, Some (normalize seeds), Some a), [])
      \<and> csv_rows (loop_body derive target P index [seeds] st) = csv_rows st @ [[normalize seeds, a]])
   \<and> (derive (normalize seeds) = Address a \<and> a \<notin> target \<longrightarrow>
      process derive seeds target = ((False, None, None), [])
      \<and> csv_rows (loop_body derive target P index [seeds] st) = csv_rows st)
   \<and> csv_rows (loop_body derive target P index chunk st)
       = csv_rows st @ List.map_filter (match_record derive target) chunk
   \<and> (0 < P \<and> accepted_offset (start_from_of resume st) \<longrightarrow>
        csv_rows (fst (start derive wordlist target P resume st))
          = csv_rows (start_setup resume st) @ List.map_filter (match_record derive target)
              (drop (nat (start_from_of resume st)) (permutations wordlist 12)))
   \<and> (\<forall>c \<in> set (normalize seeds). lower_char c = c)"
  by (simp add: process_cases loop_body_csv match_record_cases start_csv List.map_filter_def
      normalize_lower)

theorem match_recording_witness:
  "derive_abc_X (normalize seeds_abc) = Address ''X'' \<and> ''X'' \<in> target_X
   \<and> process derive_abc_X seeds_abc target_X = ((True, Some ''a b c'', Some ''X''), [])
   \<and> csv_rows (loop_body derive_abc_X target_X 1 (- 1) [seeds_abc] (initial_state [csv_header] 0))
       = [csv_header, [''a b c'', ''X'']]
   \<and> derive_Y (normalize seeds_abc) = Address ''Y'' \<and> ''Y'' \<notin> target_X
   \<and> process derive_Y seeds_abc target_X = ((False, None, None), [])
   \<and> csv_rows (loop_body derive_Y target_X 1 (- 1) [seeds_abc] (initial_state [csv_header] 0))
       = [csv_header]
   \<and> (0::nat) < 1 \<and> accepted_offset (start_from_of False (initial_state [csv_header] 0))
   \<and> csv_rows (fst (start derive_Y words12 target_Y 1 False (initial_state [csv_header] 0)))
       = csv_header # map (\<lambda>seeds. [normalize seeds, ''Y'']) (permutations words12 12)
   \<and> length (csv_rows (fst (start derive_Y words12 target_Y 1 False
        (initial_state [csv_header] 0)))) = 479001601
   \<and> csv_rows (fst (start derive_Y words12 target_X 1 False (initial_state [csv_header] 0)))
       = [csv_header]
   \<and> normalize [''  Ab '', ''CD''] = ''ab cd''"
proof -
  have h1: "derive_abc_X (normalize seeds_abc) = Address ''X''"
    by (simp add: derive_abc_X_def normalize_abc)
  have h2: "''X'' \<in> target_X" by (simp add: target_X_def)
  have h3: "derive_Y (normalize seeds_abc) = Address ''Y''" by (simp add: derive_Y_def)
  have h4: "''Y'' \<notin> target_X" by (simp add: target_X_def)
  have P: "(0::nat) < 1" by simp
  have s: "accepted_offset (start_from_of False (initial_state [csv_header] 0))"
    by (rule accepted_fresh)
  have mY: "match_record derive_Y target_Y = (\<lambda>seeds. Some [normalize seeds, ''Y''])"
    by (simp add: fun_eq_iff match_record_def derive_Y_def target_Y_def)
  have mX: "match_record derive_Y target_X = (\<lambda>seeds. None)"
    by (simp add: fun_eq_iff match_record_def derive_Y_def target_X_def)
  note tX = match_recording[where derive = derive_abc_X and seeds = seeds_abc and a = "''X''"
      and target = target_X and P = 1 and index = "- 1" and st = "initial_state [csv_header] 0"
      and chunk = "[]" and resume = False and wordlist = words12]
  note tY = match_recording[where derive = derive_Y and seeds = seeds_abc and a = "''Y''"
      and target = target_X and P = 1 and index = "- 1" and st = "initial_state [csv_header] 0"
      and chunk = "[]" and resume = False and wordlist = words12]
  note tZ = match_recording[where derive = derive_Y and seeds = seeds_abc and a = "''Y''"
      and target = target_Y and P = 1 and index = "- 1" and st = "initial_state [csv_header] 0"
      and chunk = "[]" and resume = False and wordlist = words12]
  from tX h1 h2 have c1: "process derive_abc_X seeds_abc target_X = ((True, Some ''a b c'', Some ''X''), [])"
    by (simp add: normalize_abc)
  from tX h1 h2 have c2: "csv_rows (loop_body derive_abc_X target_X 1 (- 1) [seeds_abc] (initial_state [csv_header] 0))
       = [csv_header, [''a b c'', ''X'']]"
    by (simp add: normalize_abc initial_state_def)
  from tY h3 h4 have c3: "process derive_Y seeds_abc target_X = ((False, None, None), [])"
    by simp
  from tY h3 h4 have c4: "csv_rows (loop_body derive_Y target_X 1 (- 1) [seeds_abc] (initial_state [csv_header] 0))
       = [csv_header]"
    by (simp add: initial_state_def)
  from tZ P s have c5: "csv_rows (fst (start derive_Y words12 target_Y 1 False
      (initial_state [csv_header] 0)))
       = csv_header # map (\<lambda>seeds. [normalize seeds, ''Y'']) (permutations words12 12)"
    by (simp add: start_setup_frame start_from_of_def mY List.map_filter_def comp_def)
  have c6: "length (csv_rows (fst (start derive_Y words12 target_Y 1 False
        (initial_state [csv_header] 0)))) = 479001601"
    by (simp only: c5 length_Cons length_map length_perms_words12)
  from tY P s have c7: "csv_rows (fst (start derive_Y words12 target_X 1 False
      (initial_state [csv_header] 0))) = [csv_header]"
    by (simp add: start_setup_frame start_from_of_def mX List.map_filter_def)
  from h1 h2 c1 c2 h3 h4 c3 c4 P s c5 c6 c7 normalize_example show ?thesis
    by (simp only: simp_thms)
qed

subsection \<open>C9: the outcomes of the evaluator\<close>

text \<open>
  C9, as stated, at the candidate \<open>a b c\<close> and the target \<open>X\<close>: a derivation that rejects
  the phrase (Invalid) and a derivation that gives an address outside the targets
  (NotMatched) make \<open>process\<close> return the same value and print the same (nothing); the two
  outcomes cannot be told apart.
\<close>

theorem indistinct_outcomes_counterexample:
  "process derive_invalid seeds_abc target_X = process derive_Y seeds_abc target_X"
  by (simp add: process_def derive_invalid_def derive_Y_def target_X_def)

text \<open>
  C9, amended. \<open>process\<close> returns one of two values: the match, with the normalized phrase
  and the address, or the no-match value \<open>(False, [None, None])\<close>. A derived address that
  is not a target and a failed derivation give the same no-match value. \<open>process\<close> does not
  raise when the derivation fails: it prints nothing for \<open>ValueError\<close> and prints the
  exception for any other failure. A run whose offset lies in the range \<open>0 .. sys.maxsize\<close>
  that \<open>islice\<close> accepts (a fresh run, or a resumed run whose stored progress lies in that
  range) completes whatever the derivation does.
\<close>

theorem evaluator_outcomes:
  "(fst (process derive seeds target) = (False, None, None)
      \<or> (\<exists>a. derive (normalize seeds) = Address a \<and> a \<in> target
            \<and> process derive seeds target = ((True, Some (normalize seeds), Some a), [])))
   \<and> (derive (normalize seeds) = RaisesValueError \<longrightarrow>
        process derive seeds target = ((False, None, None), []))
   \<and> (derive (normalize seeds) = RaisesOther e \<longrightarrow>
        process derive seeds target = ((False, None, None), [e]))
   \<and> (derive (normalize seeds) = Address a \<and> a \<notin> target \<longrightarrow>
        process derive seeds target = ((False, None, None), []))
   \<and> (0 < P \<and> accepted_offset (start_from_of resume st) \<longrightarrow>
        snd (start derive wordlist target P resume st) = Completed)"
  by (cases "derive (normalize seeds)") (simp_all add: process_def start_outcome)

theorem evaluator_outcomes_witness:
  "derive_invalid (normalize seeds_abc) = RaisesValueError
   \<and> process derive_invalid seeds_abc target_X = ((False, None, None), [])
   \<and> derive_fault (normalize seeds_abc) = RaisesOther ''fault''
   \<and> process derive_fault seeds_abc target_X = ((False, None, None), [''fault''])
   \<and> derive_Y (normalize seeds_abc) = Address ''Y'' \<and> ''Y'' \<notin> target_X
   \<and> process derive_Y seeds_abc target_X = ((False, None, None), [])
   \<and> (0::nat) < 1 \<and> accepted_offset (start_from_of False (initial_state [] 0))
   \<and> snd (start derive_fault words12 target_X 1 False (initial_state [] 0)) = Completed"
proof -
  have h1: "derive_invalid (normalize seeds_abc) = RaisesValueError"
    by (simp add: derive_invalid_def)
  have h2: "derive_fault (normalize seeds_abc) = RaisesOther ''fault''"
    by (simp add: derive_fault_def)
  have h3: "derive_Y (normalize seeds_abc) = Address ''Y''" by (simp add: derive_Y_def)
  have h4: "''Y'' \<notin> target_X" by (simp add: target_X_def)
  have P: "(0::nat) < 1" by simp
  have s: "accepted_offset (start_from_of False (initial_state [] 0))"
    by (rule accepted_fresh)
  note t1 = evaluator_outcomes[where derive = derive_invalid and seeds = seeds_abc
      and target = target_X]
  note t2 = evaluator_outcomes[where derive = derive_fault and seeds = seeds_abc
      and target = target_X and e = "''fault''" and P = 1 and resume = False
      and st = "initial_state [] 0" and wordlist = words12]
  note t3 = evaluator_outcomes[where derive = derive_Y and seeds = seeds_abc
      and target = target_X and a = "''Y''"]
  from t1 h1 have c1: "process derive_invalid seeds_abc target_X = ((False, None, None), [])"
    by blast
  from t2 h2 have c2: "process derive_fault seeds_abc target_X = ((False, None, None), [''fault''])"
    by blast
  from t3 h3 h4 have c3: "process derive_Y seeds_abc target_X = ((False, None, None), [])"
    by blast
  from t2 P s have c4: "snd (start derive_fault words12 target_X 1 False (initial_state [] 0)) = Completed"
    by blast
  from h1 c1 h2 c2 h3 h4 c3 P s c4 show ?thesis by (simp only: simp_thms)
qed

subsection \<open>C10: a fresh run and the stored progress\<close>

text \<open>
  C10. A fresh run does not reset the stored progress. Its first statements rewrite the CSV
  to the header and leave the progress as it was; the first batch, numbered \<open>-1\<close>, saves
  nothing; and as long as the run has saved nothing, the stored progress is the value left
  by the earlier run.
\<close>

theorem fresh_run_keeps_progress:
  "0 < P \<Longrightarrow>
   progress (start_setup False st) = progress st
   \<and> csv_rows (start_setup False st) = [csv_header]
   \<and> (j \<le> 1 \<longrightarrow>
        progress (fst (run_prefix j derive wordlist target P False st)) = progress st
        \<and> saves (fst (run_prefix j derive wordlist target P False st)) = saves st)
   \<and> (saves (fst (run_prefix j derive wordlist target P False st)) = saves st \<longrightarrow>
        progress (fst (run_prefix j derive wordlist target P False st)) = progress st)"
proof (intro conjI impI)
  assume P: "0 < P"
  have s: "accepted_offset (start_from_of False st)" by (rule accepted_fresh)
  let ?m = "min j (length (batches wordlist P False st))"
  show "progress (start_setup False st) = progress st"
    by (simp add: start_setup_frame)
  show "csv_rows (start_setup False st) = [csv_header]"
    by (simp add: start_setup_frame)
  {
    assume "j \<le> 1"
    then have "?m \<le> 1" by simp
    then have w: "written P (- 1) ?m = []" by (rule written_le_1)
    show "progress (fst (run_prefix j derive wordlist target P False st)) = progress st"
      by (simp only: run_prefix_progress[OF P s] first_index_fresh w) simp
    show "saves (fst (run_prefix j derive wordlist target P False st)) = saves st"
      by (simp only: run_prefix_saves[OF P s] first_index_fresh w) simp
  }
  assume "saves (fst (run_prefix j derive wordlist target P False st)) = saves st"
  then have "written P (- 1) ?m = []"
    by (simp add: run_prefix_saves[OF P s] first_index_fresh)
  then show "progress (fst (run_prefix j derive wordlist target P False st)) = progress st"
    by (simp only: run_prefix_progress[OF P s] first_index_fresh) simp
qed

theorem fresh_run_keeps_progress_witness:
  "(0::nat) < 1 \<and> (1::nat) \<le> 1
   \<and> progress (start_setup False (initial_state [[''old'', ''row'']] 5000)) = 5000
   \<and> csv_rows (start_setup False (initial_state [[''old'', ''row'']] 5000)) = [csv_header]
   \<and> progress (fst (run_prefix 1 derive_invalid words12 no_targets 1 False
        (initial_state [[''old'', ''row'']] 5000))) = 5000
   \<and> saves (fst (run_prefix 1 derive_invalid words12 no_targets 1 False
        (initial_state [[''old'', ''row'']] 5000))) = []"
proof -
  have P: "(0::nat) < 1" and j: "(1::nat) \<le> 1" by simp_all
  have p0: "progress (initial_state [[''old'', ''row'']] 5000) = 5000"
    and s0: "saves (initial_state [[''old'', ''row'']] 5000) = []"
    by (simp_all add: initial_state_def)
  note t = fresh_run_keeps_progress[OF P, where st = "initial_state [[''old'', ''row'']] 5000"
      and j = 1 and derive = derive_invalid and wordlist = words12 and target = no_targets]
  from t j p0 s0 P show ?thesis by (simp only: simp_thms)
qed

end
